theory Spec2Isabelle
  imports Complex_Main "HOL-Library.Multiset"
begin

section \<open>Errors\<close>

text \<open>
  The exceptions the modelled code raises. \<open>StandardError\<close> and \<open>ValueError\<close> carry
  the message string, \<open>KeyError\<close> the missing key. \<open>ValueError\<close> with the message
  \<open>max() arg is an empty sequence\<close> is what Python's \<open>max([])\<close> raises, and
  \<open>TypeError\<close> is what arithmetic on \<open>None\<close> raises.
\<close>

datatype error =
    StandardError string
  | ValueError string
  | KeyError string
  | AttributeError string
  | TypeError
  | ZeroDivisionError

section \<open>Floats, values and dtypes\<close>

text \<open>
  A log-probability is a Python float: a finite number (modelled as a real, with
  exact arithmetic), one of the two infinities (a log-probability of \<open>-inf\<close> is what a
  value outside the support has), or \<open>nan\<close>. The operations are the IEEE ones that
  \<open>decide\<close> uses: the subtraction, the test \<open>beta>0\<close>, \<open>np.exp\<close>, and the test
  \<open>z<=alpha\<close> for a finite \<open>z\<close>. A comparison with \<open>nan\<close> is false.
\<close>

datatype pyfloat = Finite real | PosInf | NegInf | NaN

fun float_sub :: "pyfloat \<Rightarrow> pyfloat \<Rightarrow> pyfloat" where
  "float_sub (Finite a) (Finite b) = Finite (a - b)"
| "float_sub NaN y = NaN"
| "float_sub x NaN = NaN"
| "float_sub PosInf PosInf = NaN"
| "float_sub NegInf NegInf = NaN"
| "float_sub PosInf y = PosInf"
| "float_sub NegInf y = NegInf"
| "float_sub (Finite a) PosInf = NegInf"
| "float_sub (Finite a) NegInf = PosInf"

fun float_gt_zero :: "pyfloat \<Rightarrow> bool" where
  "float_gt_zero (Finite a) = (a > 0)"
| "float_gt_zero PosInf = True"
| "float_gt_zero NegInf = False"
| "float_gt_zero NaN = False"

fun float_exp :: "pyfloat \<Rightarrow> pyfloat" where
  "float_exp (Finite a) = Finite (exp a)"
| "float_exp PosInf = PosInf"
| "float_exp NegInf = Finite 0"
| "float_exp NaN = NaN"

fun le_float :: "real \<Rightarrow> pyfloat \<Rightarrow> bool" where
  "le_float z (Finite a) = (z \<le> a)"
| "le_float z PosInf = True"
| "le_float z NegInf = False"
| "le_float z NaN = False"

text \<open>
  The \<open>value\<close> attribute of a variable is a Python float, which is immutable, or a
  reference to a numpy array, which \<open>+=\<close> changes in place. An array has one element
  here (the arrays that line 83 of Utils.py can store in the chain; with more
  elements that line raises); \<open>NdArray a\<close> is the array at the address \<open>a\<close> of the
  store \<open>arrays\<close>. Values and step sizes are finite numbers.
\<close>

datatype pyval = Float real | NdArray nat

text \<open>
  \<open>float_valued K vals\<close>: every value that the dictionary \<open>vals\<close> holds for a key of \<open>K\<close>
  is a Python float, not an array.
\<close>

definition float_valued :: "string set \<Rightarrow> (string \<Rightarrow> pyval) \<Rightarrow> bool" where
  "float_valued K vals = (\<forall>key \<in> K. \<exists>v. vals key = Float v)"

text \<open>
  The declared dtype of a variable, and what storing a number into a numpy array of
  that dtype keeps of it: an \<open>int\<close> array keeps the integer part.
\<close>

datatype dtype = Float_dtype | Int_dtype

definition astype :: "dtype \<Rightarrow> real \<Rightarrow> real" where
  "astype d v =
     (case d of
        Float_dtype \<Rightarrow> v
      | Int_dtype \<Rightarrow> (if v \<ge> 0 then of_int \<lfloor>v\<rfloor> else of_int \<lceil>v\<rceil>))"

text \<open>
  The model and the random generator. \<open>logp env\<close> is the joint log-probability
  \<open>mcmc.logp()\<close> as a function of the current numbers of the free variables, and
  \<open>dtype env key\<close> is \<open>unobs_stochs[key].dtype\<close>. The process-wide random generator is
  modelled by a call counter \<open>tick\<close> and two oracles: \<open>proposal_distribution env t sigma\<close>
  is what the call \<open>self.proposal_distribution( mu=0.0, sigma=sigma )\<close> returns when it
  is the \<open>t\<close>-th draw, and \<open>random env t\<close> is what \<open>np.random.random()\<close> returns when
  it is the \<open>t\<close>-th draw.
\<close>

record env =
  logp :: "(string \<Rightarrow> real) \<Rightarrow> pyfloat"
  dtype :: "string \<Rightarrow> dtype"
  proposal_distribution :: "nat \<Rightarrow> real \<Rightarrow> real"
  random :: "nat \<Rightarrow> real"

section \<open>MetropolisHastings.decide\<close>

text \<open>
  \<open>decide\<close> (BuiltinStepMethods.py, lines 40-54). The result is the decision and the
  generator's counter afterwards: \<open>z\<close> is drawn only in the \<open>else\<close> branch.
\<close>

definition decide :: "env \<Rightarrow> nat \<Rightarrow> pyfloat \<Rightarrow> pyfloat \<Rightarrow> bool \<times> nat" where
  "decide e t current_logp new_logp =
     (let beta = float_sub new_logp current_logp in
      if float_gt_zero beta then (True, t)
      else
        (let alpha = float_exp beta;
             z = random e t
         in if le_float z alpha then (True, Suc t) else (False, Suc t)))"

section \<open>MetropolisHastings.pre_tune\<close>

text \<open>
  The mutable objects a run works on: the \<open>value\<close> attributes of the free variables
  (\<open>unobs_stochs[key].value\<close>), the store of the arrays, the step method's
  \<open>step_sizes\<close> dictionary (a lookup of a missing key raises \<open>KeyError\<close>) and the
  generator's counter.
\<close>

record mcmc =
  stoch_value :: "string \<Rightarrow> pyval"
  arrays :: "nat \<Rightarrow> real"
  step_sizes :: "string \<rightharpoonup> real"
  tick :: nat

text \<open>The number that a free variable holds: what \<open>logp\<close> and the chain read.\<close>

definition value_of :: "'a mcmc_scheme \<Rightarrow> string \<Rightarrow> real" where
  "value_of s key = (case stoch_value s key of Float v \<Rightarrow> v | NdArray a \<Rightarrow> arrays s a)"

text \<open>
  \<open>unobs_stochs[key].value += d\<close>: a float is replaced by a new float; an array is
  changed in place, and with it every other reference to the same array.
\<close>

definition add_to_value :: "string \<Rightarrow> real \<Rightarrow> 'a mcmc_scheme \<Rightarrow> 'a mcmc_scheme" where
  "add_to_value key d s =
     (case stoch_value s key of
        Float v \<Rightarrow> s\<lparr>stoch_value := (stoch_value s)(key := Float (v + d))\<rparr>
      | NdArray a \<Rightarrow> s\<lparr>arrays := (arrays s)(a := arrays s a + d)\<rparr>)"

text \<open>
  The local variables of \<open>pre_tune\<close>. \<open>t_current_values\<close> and \<open>t_current_logp\<close> are
  \<open>pre_tune\<close>'s own \<open>current_values\<close> and \<open>current_logp\<close> (\<open>sample\<close> has locals of the
  same names), \<open>iter\<close> is the counter \<open>i\<close>, and \<open>tuning_chains key\<close> is the array
  \<open>tuning_chains[key]['accepted']\<close>. The arrays \<open>tuning_chains[key]['values']\<close> and
  \<open>tuning_chains[key]['logp']\<close> are written and never read; they are left out.
\<close>

record tuning = mcmc +
  t_current_values :: "string \<Rightarrow> pyval"
  t_current_logp :: pyfloat
  tuning_chains :: "string \<Rightarrow> nat list"
  tuning_chain :: "nat list"
  iter :: nat
  nsuccess :: nat
  accfrac_j :: real
  accfrac :: real
  rescale_factor :: real

lemma add_to_value_tuning [simp]:
  "step_sizes (add_to_value key d s) = step_sizes s"
  "tick (add_to_value key d s) = tick s"
  "t_current_values (add_to_value key d s) = t_current_values s"
  "t_current_logp (add_to_value key d s) = t_current_logp s"
  "tuning_chains (add_to_value key d s) = tuning_chains s"
  "tuning_chain (add_to_value key d s) = tuning_chain s"
  "iter (add_to_value key d s) = iter s"
  "nsuccess (add_to_value key d s) = nsuccess s"
  "accfrac_j (add_to_value key d s) = accfrac_j s"
  "accfrac (add_to_value key d s) = accfrac s"
  "rescale_factor (add_to_value key d s) = rescale_factor s"
  by (simp_all add: add_to_value_def split: pyval.split)

lemma value_of_tuning [simp]:
  "value_of (step_sizes_update f0 s) = value_of s"
  "value_of (tick_update f1 s) = value_of s"
  "value_of (t_current_values_update f2 s) = value_of s"
  "value_of (t_current_logp_update f3 s) = value_of s"
  "value_of (tuning_chains_update f4 s) = value_of s"
  "value_of (tuning_chain_update f5 s) = value_of s"
  "value_of (iter_update f6 s) = value_of s"
  "value_of (nsuccess_update f7 s) = value_of s"
  "value_of (accfrac_j_update f8 s) = value_of s"
  "value_of (accfrac_update f9 s) = value_of s"
  "value_of (rescale_factor_update f10 s) = value_of s"
  by (simp_all add: value_of_def fun_eq_iff split: pyval.split)

definition nconsecutive :: nat where
  "nconsecutive = 5"

text \<open>\<open>'{0}'.format( m )\<close> for a non-negative integer.\<close>

fun format_nat :: "nat \<Rightarrow> string" where
  "format_nat m =
     (if m < 10 then [char_of (48 + m)]
      else format_nat (m div 10) @ [char_of (48 + m mod 10)])"

definition err_str :: "nat \<Rightarrow> string" where
  "err_str m =
     (''Aborting tuning - exceeded '' @ format_nat m @ '' steps'')
       @ ([CHR 0x0A] @ ''...consider reducing tune_interval'')"

text \<open>
  \<open>for key in keys: dst[key] = src[key]\<close>; for an array this copies the reference.
\<close>

definition copy_values ::
  "string list \<Rightarrow> (string \<Rightarrow> 'v) \<Rightarrow> (string \<Rightarrow> 'v) \<Rightarrow> (string \<Rightarrow> 'v)" where
  "copy_values keys src dst = foldl (\<lambda>d key. d(key := src key)) dst keys"

text \<open>
  The step-size adjustment at the end of a Phase A interval (lines 158-181): the new
  value of \<open>self.step_sizes[key_j]\<close>. When no branch of the chain applies the step
  size is left as it is.
\<close>

definition adjust_step_size :: "real \<Rightarrow> real \<Rightarrow> real" where
  "adjust_step_size a step_size =
     (if a \<le> 0.01 then step_size / 5.0
      else if a > 0.01 \<and> a \<le> 0.05 then step_size / 2.0
      else if a > 0.05 \<and> a \<le> 0.10 then step_size / 1.5
      else if a > 0.10 \<and> a \<le> 0.15 then step_size / 1.2
      else if a > 0.15 \<and> a < 0.2 then step_size / 1.1
      else if a > 0.20 \<and> a < 0.25 then step_size / 1.01
      else if a > 0.35 \<and> a \<le> 0.40 then step_size * 1.01
      else if a > 0.40 \<and> a \<le> 0.45 then step_size * 1.1
      else if a > 0.45 \<and> a \<le> 0.50 then step_size * 1.2
      else if a > 0.50 \<and> a \<le> 0.55 then step_size * 1.5
      else if a > 0.55 \<and> a \<le> 0.60 then step_size * 2.0
      else if a > 0.60 then step_size * 5.0
      else step_size)"

text \<open>
  Lines 134-146 of the Phase A loop: the step in the parameter \<open>key_j\<close> alone, the
  decision against \<open>current_logp\<close>, and the update of \<open>current_values\<close> or the
  restoring of the last accepted value. The flag read back from
  \<open>tuning_chains[key_j]['accepted'][k]\<close> is the decision just stored there.
\<close>

definition phaseA_take_step ::
  "env \<Rightarrow> nat \<Rightarrow> string \<Rightarrow> pyfloat \<Rightarrow> real \<Rightarrow> tuning \<Rightarrow> tuning" where
  "phaseA_take_step e k key_j logp0 step_size_j s =
     (let s3 = (add_to_value key_j (proposal_distribution e (tick s) step_size_j) s)
                 \<lparr>tick := Suc (tick s)\<rparr>;
          new_logp = logp e (value_of s3);
          d = decide e (tick s3) logp0 new_logp;
          s4 = s3\<lparr>tick := snd d,
                  tuning_chains := (tuning_chains s3)
                     (key_j := (tuning_chains s3 key_j)[k := (if fst d then 1 else 0)])\<rparr>
      in if fst d
         then s4\<lparr>t_current_values := (t_current_values s4)(key_j := stoch_value s4 key_j)\<rparr>
         else s4\<lparr>stoch_value := (stoch_value s4)(key_j := t_current_values s4 key_j)\<rparr>)"

text \<open>
  The end of a Phase A interval, \<open>k==n-1\<close>: the acceptance fraction and the new step
  size (lines 155-181), then the count of consecutive successes (lines 185-189).
\<close>

definition phaseA_interval_end :: "nat \<Rightarrow> string \<Rightarrow> real \<Rightarrow> tuning \<Rightarrow> tuning" where
  "phaseA_interval_end n key_j step_size_j s =
     (let naccepted_j = sum_list (tuning_chains s key_j);
          a = real naccepted_j / real n;
          s6 = s\<lparr>accfrac_j := a,
                 step_sizes := (step_sizes s)(key_j \<mapsto> adjust_step_size a step_size_j)\<rparr>
      in if accfrac_j s6 \<ge> 0.2 \<and> accfrac_j s6 \<le> 0.40
         then s6\<lparr>nsuccess := nsuccess s6 + 1\<rparr>
         else s6\<lparr>nsuccess := 0\<rparr>)"

text \<open>
  One pass through the \<open>else\<close> branch of the Phase A loop (lines 121-181) followed by
  lines 185-189. \<open>i%n\<close> raises for \<open>n = 0\<close>.
\<close>

definition phaseA_iter ::
  "env \<Rightarrow> nat \<Rightarrow> string list \<Rightarrow> (string \<Rightarrow> pyval) \<Rightarrow> string \<Rightarrow> tuning \<Rightarrow> error + tuning" where
  "phaseA_iter e n keys orig_stoch_values key_j s =
     (if n = 0 then Inl ZeroDivisionError
      else
        let k = iter s mod n;
            s1 = s\<lparr>iter := iter s + 1\<rparr>;
            logp0 = logp e (value_of s1);
            s2 = (if k = 0
                  then s1\<lparr>stoch_value := copy_values keys orig_stoch_values (stoch_value s1)\<rparr>
                  else s1)
        in case step_sizes s2 key_j of
             None \<Rightarrow> Inl (KeyError key_j)
           | Some step_size_j \<Rightarrow>
               let s5 = phaseA_take_step e k key_j logp0 step_size_j s2
               in Inr (if k = n - 1 then phaseA_interval_end n key_j step_size_j s5 else s5))"

lemma phaseA_take_step_fields:
  "iter (phaseA_take_step e k key_j l sz s) = iter s"
  "nsuccess (phaseA_take_step e k key_j l sz s) = nsuccess s"
  "step_sizes (phaseA_take_step e k key_j l sz s) = step_sizes s"
  by (simp_all add: phaseA_take_step_def Let_def)

lemma phaseA_interval_end_fields:
  "accfrac_j (phaseA_interval_end n key_j sz s) = real (sum_list (tuning_chains s key_j)) / real n"
  "tuning_chains (phaseA_interval_end n key_j sz s) = tuning_chains s"
  "nsuccess (phaseA_interval_end n key_j sz s)
     = (if 0.2 \<le> real (sum_list (tuning_chains s key_j)) / real n
           \<and> real (sum_list (tuning_chains s key_j)) / real n \<le> 0.4
        then nsuccess s + 1 else 0)"
  "step_sizes (phaseA_interval_end n key_j sz s)
     = (step_sizes s)
         (key_j \<mapsto> adjust_step_size (real (sum_list (tuning_chains s key_j)) / real n) sz)"
  by (simp_all add: phaseA_interval_end_def Let_def)

lemma phaseA_interval_end_iter:
  "iter (phaseA_interval_end n key_j sz s) = iter s"
  by (simp add: phaseA_interval_end_def Let_def)

lemma phaseA_iter_iter:
  "phaseA_iter e n keys orig key_j s = Inr s' \<Longrightarrow> iter s' = Suc (iter s)"
  by (auto simp: phaseA_iter_def Let_def phaseA_take_step_fields phaseA_interval_end_iter
           split: if_splits option.splits)

text \<open>
  The \<open>while i<m+1\<close> loop of Phase A for the parameter \<open>key_j\<close> (lines 103-200). Line
  105 reads \<open>self.step_sizes[key_j]\<close> before anything else. \<open>Inr\<close> is the state at the
  \<open>break\<close> (or when the loop condition fails), \<open>Inl\<close> the exception raised.
\<close>

function phaseA_loop ::
  "env \<Rightarrow> nat \<Rightarrow> nat \<Rightarrow> string list \<Rightarrow> (string \<Rightarrow> pyval) \<Rightarrow> string \<Rightarrow> tuning \<Rightarrow> error + tuning" where
  "phaseA_loop e m n keys orig_stoch_values key_j s =
     (if iter s < m + 1
      then
        (case step_sizes s key_j of
           None \<Rightarrow> Inl (KeyError key_j)
         | Some step_size_j \<Rightarrow>
             if nsuccess s \<ge> nconsecutive
             then Inr (s\<lparr>step_sizes := (step_sizes s)(key_j \<mapsto> step_size_j * 0.3)\<rparr>)
             else if iter s = m
             then Inl (StandardError (err_str m))
             else
               (case phaseA_iter e n keys orig_stoch_values key_j s of
                  Inl err \<Rightarrow> Inl err
                | Inr s' \<Rightarrow> phaseA_loop e m n keys orig_stoch_values key_j s'))
      else Inr s)"
  by pat_completeness auto
termination
  by (relation "measure (\<lambda>(e, m, n, keys, orig, key_j, s). m + 1 - iter s)")
     (auto dest: phaseA_iter_iter)

declare phaseA_loop.simps [simp del]

text \<open>
  \<open>for j in range( npars ): ... key_j = keys[j]\<close> (lines 94-98): the parameters are
  tuned in the order of \<open>mcmc.model.free.keys()\<close>.
\<close>

definition tuning_order :: "string list \<Rightarrow> string list" where
  "tuning_order keys = map (\<lambda>j. keys ! j) [0..<length keys]"

fun phaseA ::
  "env \<Rightarrow> nat \<Rightarrow> nat \<Rightarrow> string list \<Rightarrow> (string \<Rightarrow> pyval) \<Rightarrow> string list \<Rightarrow> tuning \<Rightarrow> error + tuning" where
  "phaseA e m n keys orig_stoch_values [] s = Inr s"
| "phaseA e m n keys orig_stoch_values (key_j # rest) s =
     (case phaseA_loop e m n keys orig_stoch_values key_j
             (s\<lparr>iter := 0, nsuccess := 0, accfrac_j := 0\<rparr>) of
        Inl err \<Rightarrow> Inl err
      | Inr s' \<Rightarrow> phaseA e m n keys orig_stoch_values rest s')"

text \<open>
  The new \<open>rescale_factor\<close> after a Phase B interval that was not a success (lines
  268-287); the factor is kept when no branch of the chain applies.
\<close>

definition adjust_rescale_factor :: "real \<Rightarrow> real \<Rightarrow> real" where
  "adjust_rescale_factor a r =
     (if a \<le> 0.01 then 1 / 2.0
      else if a > 0.01 \<and> a \<le> 0.05 then 1 / 1.5
      else if a > 0.05 \<and> a \<le> 0.10 then 1 / 1.2
      else if a > 0.10 \<and> a \<le> 0.15 then 1 / 1.1
      else if a > 0.15 \<and> a < 0.2 then 1 / 1.01
      else if a > 0.35 \<and> a \<le> 0.45 then 1.01
      else if a > 0.45 \<and> a \<le> 0.50 then 1.1
      else if a > 0.50 \<and> a \<le> 0.55 then 1.2
      else if a > 0.55 \<and> a \<le> 0.60 then 1.5
      else if a > 0.60 then 2
      else r)"

text \<open>
  The inner \<open>for key in keys\<close> of Phase B (lines 237-244): in the first iteration of
  an interval (\<open>k==0\<close>) the step size of \<open>key\<close> is multiplied by \<open>rescale_factor\<close>,
  then the value of \<open>key\<close> is perturbed with the step size of \<open>key\<close>.
\<close>

fun rescale_and_step :: "env \<Rightarrow> nat \<Rightarrow> string list \<Rightarrow> tuning \<Rightarrow> error + tuning" where
  "rescale_and_step e k [] s = Inr s"
| "rescale_and_step e k (key # rest) s =
     (case step_sizes s key of
        None \<Rightarrow> Inl (KeyError key)
      | Some step_size \<Rightarrow>
          let s1 = (if k = 0
                    then s\<lparr>step_sizes := (step_sizes s)(key \<mapsto> step_size * rescale_factor s)\<rparr>
                    else s)
          in case step_sizes s1 key of
               None \<Rightarrow> Inl (KeyError key)
             | Some sigma \<Rightarrow>
                 rescale_and_step e k rest
                   ((add_to_value key (proposal_distribution e (tick s1) sigma) s1)
                      \<lparr>tick := Suc (tick s1)\<rparr>))"

text \<open>
  Lines 246-255 of the Phase B loop: the joint decision, then the update of
  \<open>current_logp\<close> and \<open>current_values\<close> or the restoring of all values.
\<close>

definition phaseB_decide :: "env \<Rightarrow> nat \<Rightarrow> string list \<Rightarrow> tuning \<Rightarrow> tuning" where
  "phaseB_decide e k keys s =
     (let new_logp = logp e (value_of s);
          d = decide e (tick s) (t_current_logp s) new_logp;
          s4 = s\<lparr>tick := snd d,
                 tuning_chain := (tuning_chain s)[k := (if fst d then 1 else 0)]\<rparr>
      in if fst d
         then s4\<lparr>t_current_logp := new_logp,
                 t_current_values := copy_values keys (stoch_value s4) (t_current_values s4)\<rparr>
         else s4\<lparr>stoch_value := copy_values keys (t_current_values s4) (stoch_value s4)\<rparr>)"

text \<open>The end of a Phase B interval, \<open>k==n-1\<close> (lines 260-287).\<close>

definition phaseB_interval_end :: "nat \<Rightarrow> tuning \<Rightarrow> tuning" where
  "phaseB_interval_end n s =
     (let naccepted = sum_list (tuning_chain s);
          a = real naccepted / real n;
          s6 = s\<lparr>accfrac := a\<rparr>
      in if a \<ge> 0.2 \<and> a \<le> 0.35
         then s6\<lparr>nsuccess := nsuccess s6 + 1, rescale_factor := 1.0\<rparr>
         else s6\<lparr>nsuccess := 0,
                 rescale_factor := adjust_rescale_factor a (rescale_factor s6)\<rparr>)"

text \<open>One pass through the \<open>else\<close> branch of the Phase B loop (lines 226-287).\<close>

definition phaseB_iter ::
  "env \<Rightarrow> nat \<Rightarrow> string list \<Rightarrow> (string \<Rightarrow> pyval) \<Rightarrow> tuning \<Rightarrow> error + tuning" where
  "phaseB_iter e n keys orig_stoch_values s =
     (if n = 0 then Inl ZeroDivisionError
      else
        let k = iter s mod n;
            s1 = s\<lparr>iter := iter s + 1\<rparr>;
            s2 = (if k = 0
                  then s1\<lparr>stoch_value := copy_values keys orig_stoch_values (stoch_value s1)\<rparr>
                  else s1)
        in case rescale_and_step e k keys s2 of
             Inl err \<Rightarrow> Inl err
           | Inr s3 \<Rightarrow>
               let s5 = phaseB_decide e k keys s3
               in Inr (if k = n - 1 then phaseB_interval_end n s5 else s5))"

lemma phaseB_decide_fields:
  "iter (phaseB_decide e k keys s) = iter s"
  "nsuccess (phaseB_decide e k keys s) = nsuccess s"
  "step_sizes (phaseB_decide e k keys s) = step_sizes s"
  "rescale_factor (phaseB_decide e k keys s) = rescale_factor s"
  by (simp_all add: phaseB_decide_def Let_def)

lemma phaseB_interval_end_fields:
  "iter (phaseB_interval_end n s) = iter s"
  "step_sizes (phaseB_interval_end n s) = step_sizes s"
  by (simp_all add: phaseB_interval_end_def Let_def)

lemma rescale_and_step_iter:
  "rescale_and_step e k keys s = Inr s' \<Longrightarrow> iter s' = iter s"
  by (induction keys arbitrary: s) (auto simp: Let_def split: option.splits if_splits)

lemma phaseB_iter_iter:
  "phaseB_iter e n keys orig s = Inr s' \<Longrightarrow> iter s' = Suc (iter s)"
  by (auto simp: phaseB_iter_def Let_def phaseB_decide_fields phaseB_interval_end_fields
           split: if_splits sum.splits dest: rescale_and_step_iter)

text \<open>The \<open>while i<m+1\<close> loop of Phase B (lines 211-292).\<close>

function phaseB_loop ::
  "env \<Rightarrow> nat \<Rightarrow> nat \<Rightarrow> string list \<Rightarrow> (string \<Rightarrow> pyval) \<Rightarrow> tuning \<Rightarrow> error + tuning" where
  "phaseB_loop e m n keys orig_stoch_values s =
     (if iter s < m + 1
      then
        (if nsuccess s \<ge> nconsecutive
         then Inr s
         else if iter s = m
         then Inl (StandardError (err_str m))
         else
           (case phaseB_iter e n keys orig_stoch_values s of
              Inl err \<Rightarrow> Inl err
            | Inr s' \<Rightarrow> phaseB_loop e m n keys orig_stoch_values s'))
      else Inr s)"
  by pat_completeness auto
termination
  by (relation "measure (\<lambda>(e, m, n, keys, orig, s). m + 1 - iter s)")
     (auto dest: phaseB_iter_iter)

declare phaseB_loop.simps [simp del]

text \<open>
  The state in which Phase A starts (lines 72-88) and the state in which Phase B
  starts (lines 204-208). The fields that the source has not assigned yet are given
  the value 0, and a dictionary holds the float 0 for the keys it does not have; they
  are not read before they are assigned. Without free variables
  numpy's \<open>1.0/np.sqrt( 0 )\<close> is \<open>inf\<close>, which the division here does not model;
  the factor is not used then.
\<close>

definition start_tuning :: "nat \<Rightarrow> string list \<Rightarrow> mcmc \<Rightarrow> tuning" where
  "start_tuning n keys mc =
     \<lparr>stoch_value = stoch_value mc, arrays = arrays mc, step_sizes = step_sizes mc,
      tick = tick mc,
      t_current_values = copy_values keys (stoch_value mc) (\<lambda>key. Float 0),
      t_current_logp = Finite 0,
      tuning_chains = (\<lambda>key. replicate n 0),
      tuning_chain = [],
      iter = 0, nsuccess = 0, accfrac_j = 0, accfrac = 0, rescale_factor = 0\<rparr>"

definition start_phaseB :: "env \<Rightarrow> nat \<Rightarrow> string list \<Rightarrow> tuning \<Rightarrow> tuning" where
  "start_phaseB e n keys s =
     s\<lparr>iter := 0, nsuccess := 0,
       rescale_factor := 1.0 / sqrt (real (length keys)),
       tuning_chain := replicate n 0,
       t_current_logp := logp e (value_of s)\<rparr>"

text \<open>
  \<open>pre_tune( mcmc, ntune_iterlim=m, tune_interval=n )\<close> for the free variables \<open>keys\<close>
  (\<open>mcmc.model.free.keys()\<close>). The constructor never leaves \<open>self.step_sizes\<close> at
  \<open>None\<close>, so lines 66-69 do nothing. The result is the state of the variables, the
  step sizes and the generator when \<open>pre_tune\<close> returns.
\<close>

definition pre_tune :: "env \<Rightarrow> nat \<Rightarrow> nat \<Rightarrow> string list \<Rightarrow> mcmc \<Rightarrow> error + mcmc" where
  "pre_tune e m n keys mc =
     (let orig_stoch_values = copy_values keys (stoch_value mc) (\<lambda>key. Float 0)
      in case phaseA e m n keys orig_stoch_values (tuning_order keys) (start_tuning n keys mc) of
           Inl err \<Rightarrow> Inl err
         | Inr s \<Rightarrow>
             (case phaseB_loop e m n keys orig_stoch_values (start_phaseB e n keys s) of
                Inl err \<Rightarrow> Inl err
              | Inr s' \<Rightarrow>
                  Inr \<lparr>stoch_value = stoch_value s', arrays = arrays s',
                       step_sizes = step_sizes s', tick = tick s'\<rparr>))"

section \<open>MetropolisHastings.propose and Utils.sample\<close>

text \<open>
  \<open>propose\<close> (BuiltinStepMethods.py, lines 32-38): every free variable is perturbed
  by one draw of the proposal distribution with its own step size.
\<close>

fun propose :: "env \<Rightarrow> string list \<Rightarrow> 'a mcmc_scheme \<Rightarrow> error + 'a mcmc_scheme" where
  "propose e [] s = Inr s"
| "propose e (key # rest) s =
     (case step_sizes s key of
        None \<Rightarrow> Inl (KeyError key)
      | Some sigma \<Rightarrow>
          propose e rest
            ((add_to_value key (proposal_distribution e (tick s) sigma) s)
               \<lparr>tick := Suc (tick s)\<rparr>))"

text \<open>
  The state of \<open>sample\<close>: the objects of the run, the dictionary \<open>sampler.chain\<close> of
  numpy arrays (a key that is not in the dictionary is mapped to the empty list; the
  flags of \<open>chain['accepted']\<close> are the numbers 0 and 1) and the locals
  \<open>current_values\<close>, which holds the value objects, and \<open>current_logp\<close>.
\<close>

record sampler = mcmc +
  chain :: "string \<Rightarrow> pyfloat list"
  current_values :: "string \<Rightarrow> pyval"
  current_logp :: pyfloat

lemma add_to_value_sampler [simp]:
  "chain (add_to_value key d s) = chain s"
  "current_values (add_to_value key d s) = current_values s"
  "current_logp (add_to_value key d s) = current_logp s"
  by (simp_all add: add_to_value_def split: pyval.split)

lemma value_of_sampler [simp]:
  "value_of (chain_update g0 s) = value_of s"
  "value_of (current_values_update g1 s) = value_of s"
  "value_of (current_logp_update g2 s) = value_of s"
  by (simp_all add: value_of_def fun_eq_iff split: pyval.split)

text \<open>Lines 33-40: the arrays of the chain, all of length \<open>nsteps\<close>.\<close>

definition init_chain :: "string list \<Rightarrow> nat \<Rightarrow> string \<Rightarrow> pyfloat list" where
  "init_chain keys nsteps =
     foldl (\<lambda>c key. c(key := replicate nsteps (Finite 0)))
       ((\<lambda>key. [])(''logp'' := replicate nsteps (Finite 0),
                     ''accepted'' := replicate nsteps (Finite 0)))
       keys"

text \<open>
  \<open>for key in keys: chain[key][i] = v[key]\<close>, the loop of lines 82-83 for the numbers
  \<open>v\<close> to store.
\<close>

definition record_values ::
  "string list \<Rightarrow> nat \<Rightarrow> (string \<Rightarrow> pyfloat) \<Rightarrow> (string \<Rightarrow> pyfloat list)
     \<Rightarrow> string \<Rightarrow> pyfloat list" where
  "record_values keys i v c = foldl (\<lambda>c key. c(key := (c key)[i := v key])) c keys"

text \<open>
  Lines 73-81 of the main loop, after the proposal: the decision is stored in
  \<open>chain['accepted'][i]\<close>; on acceptance the new values and log-probability become
  the current ones, otherwise every free variable is set back to its current value.
  The flag read back from \<open>chain['accepted'][i]\<close> is the decision just stored there.
\<close>

definition sample_decide :: "env \<Rightarrow> string list \<Rightarrow> nat \<Rightarrow> sampler \<Rightarrow> sampler" where
  "sample_decide e keys i s =
     (let new_logp = logp e (value_of s);
          d = decide e (tick s) (current_logp s) new_logp;
          s2 = s\<lparr>tick := snd d,
                 chain := (chain s)
                   (''accepted'' := (chain s ''accepted'')
                      [i := (if fst d then Finite 1 else Finite 0)])\<rparr>
      in if fst d
         then s2\<lparr>current_logp := new_logp,
                 current_values := copy_values keys (stoch_value s2) (current_values s2)\<rparr>
         else s2\<lparr>stoch_value := copy_values keys (current_values s2) (stoch_value s2)\<rparr>)"

text \<open>
  Lines 82-84: the number of every free variable, cast to the dtype of its array of
  the chain, and the current log-probability are recorded.
\<close>

definition sample_record :: "env \<Rightarrow> string list \<Rightarrow> nat \<Rightarrow> sampler \<Rightarrow> sampler" where
  "sample_record e keys i s =
     (let s4 = s\<lparr>chain := record_values keys i
                            (\<lambda>key. Finite (astype (dtype e key) (value_of s key))) (chain s)\<rparr>
      in s4\<lparr>chain := (chain s4)(''logp'' := (chain s4 ''logp'')[i := current_logp s4])\<rparr>)"

text \<open>The body of the main loop for the step index \<open>i\<close> (lines 72-84).\<close>

definition sample_step :: "env \<Rightarrow> string list \<Rightarrow> nat \<Rightarrow> sampler \<Rightarrow> error + sampler" where
  "sample_step e keys i s =
     (case propose e keys s of
        Inl err \<Rightarrow> Inl err
      | Inr s1 \<Rightarrow> Inr (sample_record e keys i (sample_decide e keys i s1)))"

text \<open>\<open>for i in range( nsteps )\<close>: the loop over the list of step indices.\<close>

fun sample_loop :: "env \<Rightarrow> string list \<Rightarrow> nat list \<Rightarrow> sampler \<Rightarrow> error + sampler" where
  "sample_loop e keys [] s = Inr s"
| "sample_loop e keys (i # rest) s =
     (case sample_step e keys i s of
        Inl err \<Rightarrow> Inl err
      | Inr s' \<Rightarrow> sample_loop e keys rest s')"

text \<open>
  \<open>sample\<close> (Utils.py, lines 18-89). \<open>step_method\<close> is \<open>None\<close> when no step method is
  assigned and \<open>Some b\<close> for a step method with the \<open>propose\<close> and \<open>decide\<close> above, where
  \<open>b\<close> tells whether it has a \<open>pre_tune\<close> attribute. \<open>ntune_iterlim\<close> and
  \<open>tune_interval\<close> are \<open>None\<close> or a non-negative integer. \<open>keys\<close> is
  \<open>sampler.model.free.keys()\<close>. The progress bar is left out. The test of line 50
  lets \<open>pre_tune\<close> be called with two integers only; with \<open>ntune_iterlim\<close> at \<open>None\<close>
  its \<open>m+1\<close> would raise.
\<close>

definition tuning_requested :: "nat option \<Rightarrow> nat option \<Rightarrow> bool" where
  "tuning_requested ntune_iterlim tune_interval =
     (ntune_iterlim \<noteq> None \<and> tune_interval \<noteq> None)"

definition sample ::
  "env \<Rightarrow> bool option \<Rightarrow> string list \<Rightarrow> nat \<Rightarrow> nat option \<Rightarrow> nat option \<Rightarrow> mcmc
     \<Rightarrow> error + sampler" where
  "sample e step_method keys nsteps ntune_iterlim tune_interval mc =
     (case step_method of
        None \<Rightarrow> Inl (StandardError ''Step method must be assigned before sampling can begin'')
      | Some has_pre_tune \<Rightarrow>
          let chain0 = init_chain keys nsteps;
              current_values0 = copy_values keys (stoch_value mc) (\<lambda>key. Float 0);
              current_logp0 = logp e (value_of mc);
              tuned =
                (if tuning_requested ntune_iterlim tune_interval
                 then
                   (if \<not> has_pre_tune
                    then Inl (ValueError
                                ([CHR 0x0A] @ ''StepMethod must have pre_tune() method assigned''))
                    else
                      (case tune_interval of
                         None \<Rightarrow>
                           Inl (ValueError ''tune_interval must be set explicitly for pre-tuning'')
                       | Some n \<Rightarrow>
                           (case ntune_iterlim of
                              None \<Rightarrow> Inl TypeError
                            | Some m \<Rightarrow> pre_tune e m n keys mc)))
                 else Inr mc)
          in case tuned of
               Inl err \<Rightarrow> Inl err
             | Inr mc' \<Rightarrow>
                 sample_loop e keys [0..<nsteps]
                   \<lparr>stoch_value = stoch_value mc', arrays = arrays mc',
                    step_sizes = step_sizes mc', tick = tick mc',
                    chain = chain0, current_values = current_values0,
                    current_logp = current_logp0\<rparr>)"

section \<open>Utils.trace_ancestries and Utils.random_draw_from_Model\<close>

text \<open>
  Modelled from the spec: the class \<open>Stoch\<close> of ModelObjs.py is not among the source
  files. A parent of a variable is either a variable node, which carries the
  stochastic marker \<open>is_stochastic\<close> and its own \<open>parents\<close> mapping, or any other
  object (a constant, a list), which has no marker. A dictionary is the list of its
  items in iteration order, with distinct keys.
\<close>

datatype node = Constant | Stoch "(string \<times> node) list"

fun is_stochastic :: "node \<Rightarrow> bool" where
  "is_stochastic Constant = False"
| "is_stochastic (Stoch ps) = True"

text \<open>\<open>d[k] = v\<close> and \<open>d[k]\<close> on a dictionary.\<close>

fun dict_set :: "string \<Rightarrow> 'v \<Rightarrow> (string \<times> 'v) list \<Rightarrow> (string \<times> 'v) list" where
  "dict_set k v [] = [(k, v)]"
| "dict_set k v ((k', v') # d) =
     (if k' = k then (k, v) # d else (k', v') # dict_set k v d)"

fun dict_get :: "(string \<times> 'v) list \<Rightarrow> string \<Rightarrow> error + 'v" where
  "dict_get [] k = Inl (KeyError k)"
| "dict_get ((k', v') # d) k = (if k' = k then Inr v' else dict_get d k)"

text \<open>Python's \<open>max\<close> on a list of booleans; it raises on the empty list.\<close>

fun max_checks :: "bool list \<Rightarrow> error + bool" where
  "max_checks [] = Inl (ValueError ''max() arg is an empty sequence'')"
| "max_checks (b # bs) = Inr (foldl max b bs)"

text \<open>
  Lines 228-229: the parents of a stochastic parent are stored in \<open>grandparents\<close>
  under their own keys.
\<close>

definition add_grandparents ::
  "(string \<times> node) list \<Rightarrow> (string \<times> node) list \<Rightarrow> (string \<times> node) list" where
  "add_grandparents ps grandparents =
     foldl (\<lambda>g (grandparent_key, grandparent). dict_set grandparent_key grandparent g)
       grandparents ps"

text \<open>
  The \<open>for parent_key in parent_keys\<close> loop (lines 217-229), from the values of
  \<open>stoch_checks\<close> and \<open>grandparents\<close> so far.
\<close>

fun check_parents ::
  "(string \<times> node) list \<Rightarrow> bool list \<Rightarrow> (string \<times> node) list
     \<Rightarrow> bool list \<times> (string \<times> node) list" where
  "check_parents [] stoch_checks grandparents = (stoch_checks, grandparents)"
| "check_parents ((parent_key, parent) # rest) stoch_checks grandparents =
     (case parent of
        Constant \<Rightarrow> check_parents rest (stoch_checks @ [False]) grandparents
      | Stoch ps \<Rightarrow>
          check_parents rest (stoch_checks @ [True]) (add_grandparents ps grandparents))"

text \<open>The weight of a dictionary of nodes: the number of variable nodes below it.\<close>

fun weight :: "node \<Rightarrow> nat" and weights :: "(string \<times> node) list \<Rightarrow> nat" where
  "weight Constant = 0"
| "weight (Stoch ps) = Suc (weights ps)"
| "weights [] = 0"
| "weights ((k, p) # ps) = weight p + weights ps"

lemma weights_dict_set: "weights (dict_set k v d) \<le> weights d + weight v"
  by (induction d) auto

lemma weights_add_grandparents:
  "weights (add_grandparents ps g) \<le> weights g + weights ps"
  unfolding add_grandparents_def
proof (induction ps arbitrary: g)
  case Nil
  then show ?case by simp
next
  case (Cons a ps)
  obtain k v where a: "a = (k, v)" by (cases a)
  have "weights (foldl (\<lambda>g (gk, gp). dict_set gk gp g) (dict_set k v g) ps)
          \<le> weights (dict_set k v g) + weights ps"
    by (rule Cons.IH)
  also have "\<dots> \<le> weights g + weight v + weights ps"
    using weights_dict_set [of k v g] by simp
  finally show ?case by (simp add: a)
qed

lemma check_parents_weights:
  "check_parents cur checks g = (checks', g') \<Longrightarrow>
     weights g' + length (filter (\<lambda>b. b) checks') \<le> weights g + weights cur + length (filter (\<lambda>b. b) checks)"
proof (induction cur checks g rule: check_parents.induct)
  case (1 stoch_checks grandparents)
  then show ?case by simp
next
  case (2 parent_key parent rest stoch_checks grandparents)
  show ?case
  proof (cases parent)
    case Constant
    with 2 show ?thesis by simp
  next
    case (Stoch ps)
    with 2 have "weights g' + length (filter (\<lambda>b. b) checks')
                   \<le> weights (add_grandparents ps grandparents) + weights rest
                        + length (filter (\<lambda>b. b) (stoch_checks @ [True]))"
      by simp
    with weights_add_grandparents [of ps grandparents] Stoch show ?thesis by simp
  qed
qed

lemma foldl_max_bool: "foldl max b bs = (b \<or> True \<in> set bs)"
  by (induction bs arbitrary: b) (auto simp: max_def)

lemma max_checks_True: "max_checks bs = Inr b \<Longrightarrow> b \<Longrightarrow> 0 < length (filter (\<lambda>b. b) bs)"
  by (cases bs) (auto simp: foldl_max_bool filter_empty_conv)

text \<open>
  The \<open>while reached_base==False\<close> loop (lines 211-235) for one free variable: the
  result is the final \<open>counter\<close>, or the exception of \<open>max\<close>.
\<close>

function trace_loop :: "nat \<Rightarrow> (string \<times> node) list \<Rightarrow> error + nat" where
  "trace_loop counter current_parents =
     (case check_parents current_parents [] [] of
        (stoch_checks, grandparents) \<Rightarrow>
          (case max_checks stoch_checks of
             Inl err \<Rightarrow> Inl err
           | Inr any_stoch \<Rightarrow>
               if any_stoch = False
               then Inr (counter + 1)
               else trace_loop (counter + 1) grandparents))"
  by pat_completeness auto
termination
proof (relation "measure (\<lambda>(counter, current_parents). weights current_parents)")
  show "wf (measure (\<lambda>(counter, current_parents). weights current_parents))" by simp
next
  fix counter :: nat and current_parents x :: "(string \<times> node) list"
    and stoch_checks grandparents any_stoch
  assume c: "(stoch_checks, grandparents) = check_parents current_parents [] []"
    and m: "max_checks stoch_checks = Inr any_stoch" and a: "any_stoch \<noteq> False"
  from max_checks_True [OF m] a
  have "0 < length (filter (\<lambda>b. b) stoch_checks)" by blast
  moreover have "weights grandparents + length (filter (\<lambda>b. b) stoch_checks)
                   \<le> weights current_parents"
    using check_parents_weights [OF c [symmetric]] by simp
  ultimately have "weights grandparents < weights current_parents" by linarith
  then show "((counter + 1, grandparents), (counter, current_parents))
          \<in> measure (\<lambda>(counter, current_parents). weights current_parents)"
    by simp
qed

text \<open>
  \<open>trace_ancestries\<close> (lines 199-237) on the dictionary \<open>model.free\<close>: the dictionary
  \<open>model._ancestries\<close>. An object without a \<open>parents\<close> attribute among the free
  variables raises.
\<close>

fun trace_all ::
  "(string \<times> node) list \<Rightarrow> (string \<times> nat) list \<Rightarrow> error + (string \<times> nat) list" where
  "trace_all [] ancestries = Inr ancestries"
| "trace_all ((stoch_key, stoch) # rest) ancestries =
     (case stoch of
        Constant \<Rightarrow> Inl (AttributeError ''parents'')
      | Stoch current_parents \<Rightarrow>
          (case trace_loop 0 current_parents of
             Inl err \<Rightarrow> Inl err
           | Inr counter \<Rightarrow> trace_all rest (dict_set stoch_key counter ancestries)))"

definition trace_ancestries :: "(string \<times> node) list \<Rightarrow> error + (string \<times> nat) list" where
  "trace_ancestries free = trace_all free []"

text \<open>
  \<open>random_draw_from_Model\<close> (lines 99-110): the keys of the free variables in the
  order in which their \<open>random()\<close> is called. \<open>lookup_all\<close> is the loop of lines
  102-103. \<open>np.argsort\<close> is a function of the library: it returns a permutation of
  the indices of its argument that sorts it (\<open>is_argsort\<close>); which permutation it is
  when entries are equal depends on the sorting algorithm of the numpy at hand, so
  the function is a parameter here. \<open>stable_argsort\<close> is one such function.
\<close>

fun lookup_all :: "(string \<times> nat) list \<Rightarrow> string list \<Rightarrow> error + nat list" where
  "lookup_all d [] = Inr []"
| "lookup_all d (key # rest) =
     (case dict_get d key of
        Inl err \<Rightarrow> Inl err
      | Inr a \<Rightarrow> (case lookup_all d rest of Inl err \<Rightarrow> Inl err | Inr as \<Rightarrow> Inr (a # as)))"

definition is_argsort :: "nat list \<Rightarrow> nat list \<Rightarrow> bool" where
  "is_argsort xs ixs =
     (mset ixs = mset [0..<length xs] \<and> sorted (map (\<lambda>ix. xs ! ix) ixs))"

definition stable_argsort :: "nat list \<Rightarrow> nat list" where
  "stable_argsort xs = sort_key (\<lambda>i. xs ! i) [0..<length xs]"

definition random_draw_from_Model ::
  "(nat list \<Rightarrow> nat list) \<Rightarrow> string list \<Rightarrow> (string \<times> nat) list \<Rightarrow> error + string list" where
  "random_draw_from_Model np_argsort keys ancestries_dict =
     (case lookup_all ancestries_dict keys of
        Inl err \<Rightarrow> Inl err
      | Inr ancestries \<Rightarrow> Inr (map (\<lambda>ix. keys ! ix) (np_argsort ancestries)))"

text \<open>
  The depth as the specification words it: the length of the longest chain of
  stochastic ancestors of a variable, the variable itself counted; a variable
  without stochastic parents has depth 1.
\<close>

fun longest_chain :: "node \<Rightarrow> nat" and longest_chains :: "(string \<times> node) list \<Rightarrow> nat" where
  "longest_chain Constant = 0"
| "longest_chain (Stoch ps) = Suc (longest_chains ps)"
| "longest_chains [] = 0"
| "longest_chains ((k, p) # ps) = max (longest_chain p) (longest_chains ps)"

section \<open>Example models and runs\<close>

text \<open>
  A model with the log-probability \<open>-|x|\<close> and variables of dtype \<open>float\<close>. The
  generator returns 0.9 for every uniform draw; a proposal draw is the step size
  times 0 or 3, depending on the count of draws so far. In \<open>stalling_env\<close> every
  proposal draw from the 30th draw of the generator on is 0, and in \<open>downhill_env\<close>
  every proposal draw is 10 times the step size. \<open>example_mcmc step_size\<close> is the
  start of a run with the float \<open>x = 0\<close> and the given step size, \<open>example_mcmc2\<close> one
  with the two free variables \<open>x\<close> and \<open>y\<close>, \<open>array_mcmc\<close> one in which the value of \<open>x\<close>
  is an array that holds 0, and \<open>default_mcmc\<close> one with the empty \<open>step_sizes\<close> that
  the constructor of the step method installs by default. \<open>chain_of\<close> reads an array
  of the chain of a finished run (the empty list when the run raised).
\<close>

definition example_env :: env where
  "example_env =
     \<lparr>logp = (\<lambda>v. Finite (- \<bar>v ''x''\<bar>)),
      dtype = (\<lambda>key. Float_dtype),
      proposal_distribution = (\<lambda>t sigma. sigma * (if (t div 2) mod 3 = 0 then 0 else 3)),
      random = (\<lambda>t. 0.9)\<rparr>"

definition stalling_env :: env where
  "stalling_env =
     \<lparr>logp = (\<lambda>v. Finite (- \<bar>v ''x''\<bar>)),
      dtype = (\<lambda>key. Float_dtype),
      proposal_distribution =
        (\<lambda>t sigma. sigma * (if 30 \<le> t \<or> (t div 2) mod 3 = 0 then 0 else 3)),
      random = (\<lambda>t. 0.9)\<rparr>"

definition downhill_env :: env where
  "downhill_env =
     \<lparr>logp = (\<lambda>v. Finite (- \<bar>v ''x''\<bar>)),
      dtype = (\<lambda>key. Float_dtype),
      proposal_distribution = (\<lambda>t sigma. sigma * 10),
      random = (\<lambda>t. 0.9)\<rparr>"

definition example_mcmc :: "real \<Rightarrow> mcmc" where
  "example_mcmc step_size =
     \<lparr>stoch_value = (\<lambda>key. Float 0), arrays = (\<lambda>a. 0),
      step_sizes = [''x'' \<mapsto> step_size], tick = 0\<rparr>"

definition example_mcmc2 :: mcmc where
  "example_mcmc2 =
     \<lparr>stoch_value = (\<lambda>key. Float 0), arrays = (\<lambda>a. 0),
      step_sizes = [''x'' \<mapsto> 1, ''y'' \<mapsto> 2], tick = 0\<rparr>"

definition array_mcmc :: mcmc where
  "array_mcmc =
     \<lparr>stoch_value = (\<lambda>key. NdArray 0), arrays = (\<lambda>a. 0),
      step_sizes = [''x'' \<mapsto> 1], tick = 0\<rparr>"

definition default_mcmc :: mcmc where
  "default_mcmc =
     \<lparr>stoch_value = (\<lambda>key. Float 0), arrays = (\<lambda>a. 0),
      step_sizes = Map.empty, tick = 0\<rparr>"

definition chain_of :: "error + sampler \<Rightarrow> string \<Rightarrow> pyfloat list" where
  "chain_of result key = (case result of Inl err \<Rightarrow> [] | Inr s \<Rightarrow> chain s key)"

section \<open>The step-size table of the specification\<close>

text \<open>
  The table of the specification, row by row, as the new step size for an acceptance
  fraction \<open>a\<close>; \<open>None\<close> where no row of the table applies.
\<close>

definition documented_step_size :: "real \<Rightarrow> real \<Rightarrow> real option" where
  "documented_step_size a step_size =
     (if a \<le> 0.01 then Some (step_size / 5.0)
      else if 0.01 < a \<and> a \<le> 0.05 then Some (step_size / 2.0)
      else if 0.05 < a \<and> a \<le> 0.10 then Some (step_size / 1.5)
      else if 0.10 < a \<and> a \<le> 0.15 then Some (step_size / 1.2)
      else if 0.15 < a \<and> a < 0.20 then Some (step_size / 1.1)
      else if 0.20 < a \<and> a < 0.25 then Some (step_size / 1.01)
      else if 0.25 \<le> a \<and> a \<le> 0.35 then Some step_size
      else if 0.35 < a \<and> a \<le> 0.40 then Some (step_size * 1.01)
      else if 0.40 < a \<and> a \<le> 0.45 then Some (step_size * 1.1)
      else if 0.45 < a \<and> a \<le> 0.50 then Some (step_size * 1.2)
      else if 0.50 < a \<and> a \<le> 0.55 then Some (step_size * 1.5)
      else if 0.55 < a \<and> a \<le> 0.60 then Some (step_size * 2.0)
      else if a > 0.60 then Some (step_size * 5.0)
      else None)"

section \<open>Facts for evaluating the example\<close>

lemma exp_neg_below: "1/2 \<le> x \<Longrightarrow> \<not> (9 \<le> exp (- x) * 10)" for x :: real
proof -
  assume x: "1/2 \<le> x"
  have "1 + x \<le> exp x" by (rule exp_ge_add_one_self)
  with x have "3/2 \<le> exp x" by linarith
  then have "exp (- x) \<le> 1 / (3/2)"
    unfolding exp_minus inverse_eq_divide by (intro divide_left_mono) simp_all
  then show ?thesis by simp
qed

lemma rep2: "replicate 2 x = [x, x]" by (simp add: numeral_2_eq_2)
lemma rep3: "replicate 3 x = [x, x, x]" by (simp add: numeral_3_eq_3)

lemma example_step_sizes:
  "step_sizes (start_tuning 3 [''x''] (example_mcmc 1)) ''x'' = Some 1"
  "step_sizes (start_phaseB example_env 3 [''x''] (start_tuning 3 [''x''] (example_mcmc 1))) ''x''
     = Some 1"
  by (simp_all add: start_tuning_def start_phaseB_def example_mcmc_def)


lemmas tune_eval = pre_tune_def tuning_order_def phaseA.simps start_phaseB_def
        phaseA_loop.simps phaseA_iter_def phaseA_take_step_def phaseA_interval_end_def
        phaseB_loop.simps phaseB_iter_def phaseB_decide_def phaseB_interval_end_def
        adjust_step_size_def adjust_rescale_factor_def nconsecutive_def
        start_tuning_def example_env_def example_mcmc_def copy_values_def decide_def Let_def
        add_to_value_def value_of_def exp_neg_below rep3

lemma example_pre_tune:
  "\<exists>mc'. pre_tune example_env 15 3 [''x''] (example_mcmc 1) = Inr mc'
        \<and> step_sizes mc' ''x'' = Some 0.3"
  by (simp add: tune_eval)



section \<open>Properties of decide\<close>

text \<open>
  C1, as stated, fails in its last part: for the equal log-probabilities \<open>-inf\<close> and
  \<open>-inf\<close> the difference \<open>beta\<close> is \<open>nan\<close>, both comparisons are false, and the step
  is rejected although the uniform draw 1/2 lies in \<open>[0, 1)\<close>.
\<close>

theorem decide_rule_counterexample:
  "NegInf = NegInf \<and> (0::real) \<le> 1/2 \<and> (1/2::real) < 1
   \<and> decide \<lparr>logp = (\<lambda>v. NegInf), dtype = (\<lambda>key. Float_dtype),
              proposal_distribution = (\<lambda>t s. 0), random = (\<lambda>t. 1/2)\<rparr> 0 NegInf NegInf
       = (False, Suc 0)"
  by (simp add: decide_def)

text \<open>
  C1, amended. With \<open>beta = new_logp - current_logp\<close>: when \<open>beta > 0\<close> the step is
  accepted and no random number is drawn; otherwise one number \<open>z\<close> is drawn and the
  step is accepted iff \<open>z <= exp(beta)\<close>, a comparison that is false when \<open>beta\<close> is
  \<open>nan\<close>. In particular, for equal finite log-probabilities and a draw \<open>z\<close> in
  \<open>[0, 1)\<close> the step is accepted; for two equal infinite log-probabilities \<open>beta\<close> is
  \<open>nan\<close> and the step is rejected.
\<close>

theorem decide_rule:
  "(float_gt_zero (float_sub new_logp old_logp) \<longrightarrow>
      decide e t old_logp new_logp = (True, t))
   \<and> (\<not> float_gt_zero (float_sub new_logp old_logp) \<longrightarrow>
        decide e t old_logp new_logp
          = (le_float (random e t) (float_exp (float_sub new_logp old_logp)), Suc t))
   \<and> (0 \<le> random e t \<and> random e t < 1 \<longrightarrow> fst (decide e t (Finite c) (Finite c)))
   \<and> decide e t NegInf NegInf = (False, Suc t)
   \<and> decide e t PosInf PosInf = (False, Suc t)"
  by (simp add: decide_def Let_def)

theorem decide_rule_witness:
  "float_gt_zero (float_sub (Finite 2) (Finite 1))
   \<and> decide \<lparr>logp = (\<lambda>v. Finite 0), dtype = (\<lambda>key. Float_dtype),
              proposal_distribution = (\<lambda>t s. 0), random = (\<lambda>t. 1/2)\<rparr> 0 (Finite 1) (Finite 2)
       = (True, 0)
   \<and> \<not> float_gt_zero (float_sub (Finite 1) (Finite 3))
   \<and> decide \<lparr>logp = (\<lambda>v. Finite 0), dtype = (\<lambda>key. Float_dtype),
              proposal_distribution = (\<lambda>t s. 0), random = (\<lambda>t. 1/2)\<rparr> 0 (Finite 3) (Finite 1)
       = (le_float (1/2) (float_exp (Finite (- 2))), Suc 0)
   \<and> (0::real) \<le> 1/2 \<and> (1/2::real) < 1
   \<and> fst (decide \<lparr>logp = (\<lambda>v. Finite 0), dtype = (\<lambda>key. Float_dtype),
                  proposal_distribution = (\<lambda>t s. 0), random = (\<lambda>t. 1/2)\<rparr> 0 (Finite 1) (Finite 1))"
  using decide_rule [of "Finite 2" "Finite 1"
          "\<lparr>logp = (\<lambda>v. Finite 0), dtype = (\<lambda>key. Float_dtype),
            proposal_distribution = (\<lambda>t s. 0), random = (\<lambda>t. 1/2)\<rparr>" 0 1]
        decide_rule [of "Finite 1" "Finite 3"
          "\<lparr>logp = (\<lambda>v. Finite 0), dtype = (\<lambda>key. Float_dtype),
            proposal_distribution = (\<lambda>t s. 0), random = (\<lambda>t. 1/2)\<rparr>" 0 1]
  by simp

section \<open>Properties of the ancestry resolver\<close>

text \<open>
  C7. The resolver does not always assign the length of the longest chain of
  stochastic ancestors. The free variable \<open>v\<close> has the stochastic parents \<open>a\<close> and
  \<open>b\<close>; \<open>a\<close> has a stochastic parent under the key \<open>mu\<close>, \<open>b\<close> has a constant under the
  same key \<open>mu\<close>. In \<open>grandparents\<close> the constant overwrites the stochastic node, so
  the resolver stops at depth 2, while the longest chain of \<open>v\<close> has length 3.
  On the chain \<open>A\<close>, \<open>B\<close>, \<open>C\<close>, where \<open>A\<close> has a constant parent, the depths are 1,
  2 and 3.
\<close>

theorem ancestry_key_collision:
  "trace_ancestries
     [(''v'', Stoch [(''a'', Stoch [(''mu'', Stoch [(''c'', Constant)])]),
                     (''b'', Stoch [(''mu'', Constant)])])]
     = Inr [(''v'', 2)]
   \<and> longest_chain
       (Stoch [(''a'', Stoch [(''mu'', Stoch [(''c'', Constant)])]),
               (''b'', Stoch [(''mu'', Constant)])]) = 3
   \<and> trace_ancestries
       [(''A'', Stoch [(''c'', Constant)]),
        (''B'', Stoch [(''a'', Stoch [(''c'', Constant)])]),
        (''C'', Stoch [(''b'', Stoch [(''a'', Stoch [(''c'', Constant)])])])]
       = Inr [(''A'', 1), (''B'', 2), (''C'', 3)]"
  by (simp add: trace_ancestries_def add_grandparents_def)


text \<open>
  C8. A free variable whose \<open>parents\<close> mapping is empty makes the resolver raise (the
  \<open>max\<close> of the empty list \<open>stoch_checks\<close>), and so does a free variable whose
  stochastic parent has an empty \<open>parents\<close> mapping.
\<close>

theorem ancestry_empty_parents:
  "trace_ancestries [(''A'', Stoch [])] = Inl (ValueError ''max() arg is an empty sequence'')
   \<and> trace_ancestries [(''B'', Stoch [(''a'', Stoch [])])]
       = Inl (ValueError ''max() arg is an empty sequence'')"
  by (simp add: trace_ancestries_def add_grandparents_def)


section \<open>Properties of pre_tune\<close>

lemma phaseA_iter_Inr:
  assumes "phaseA_iter e n keys orig key_j s = Inr s'"
  obtains sz s5 where "n \<noteq> 0" "step_sizes s key_j = Some sz" "nsuccess s5 = nsuccess s"
    "step_sizes s5 = step_sizes s"
    "s' = (if iter s mod n = n - 1 then phaseA_interval_end n key_j sz s5 else s5)"
proof -
  from assms have n: "n \<noteq> 0"
    by (cases "n = 0") (simp_all add: phaseA_iter_def)
  define s2 where "s2 = (if iter s mod n = 0
                  then s\<lparr>iter := iter s + 1,
                         stoch_value := copy_values keys orig (stoch_value s)\<rparr>
                  else s\<lparr>iter := iter s + 1\<rparr>)"
  have f: "step_sizes s2 = step_sizes s" "nsuccess s2 = nsuccess s"
    by (simp_all add: s2_def)
  from n have "phaseA_iter e n keys orig key_j s = (case step_sizes s2 key_j of
             None \<Rightarrow> Inl (KeyError key_j)
           | Some step_size_j \<Rightarrow>
               let s5 = phaseA_take_step e (iter s mod n) key_j (logp e (value_of s)) step_size_j s2
               in Inr (if iter s mod n = n - 1 then phaseA_interval_end n key_j step_size_j s5 else s5))"
    by (cases "iter s mod n = 0")
       (simp_all add: phaseA_iter_def Let_def s2_def split: option.split)
  with assms have c: "(case step_sizes s2 key_j of
             None \<Rightarrow> Inl (KeyError key_j)
           | Some step_size_j \<Rightarrow>
               let s5 = phaseA_take_step e (iter s mod n) key_j (logp e (value_of s)) step_size_j s2
               in Inr (if iter s mod n = n - 1 then phaseA_interval_end n key_j step_size_j s5 else s5))
            = Inr s'"
    by simp
  then obtain sz where sz: "step_sizes s2 key_j = Some sz"
    by (cases "step_sizes s2 key_j") simp_all
  define s5 where "s5 = phaseA_take_step e (iter s mod n) key_j (logp e (value_of s)) sz s2"
  from c have "(if iter s mod n = n - 1 then phaseA_interval_end n key_j sz s5 else s5) = s'"
    by (simp only: sz option.case Let_def s5_def sum.inject)
  then have "s' = (if iter s mod n = n - 1 then phaseA_interval_end n key_j sz s5 else s5)"
    by (rule sym)
  moreover have "nsuccess s5 = nsuccess s" "step_sizes s5 = step_sizes s"
    by (simp_all add: s5_def phaseA_take_step_fields f)
  ultimately show thesis using that [of sz s5] n sz f by simp
qed









section \<open>Properties of the step-size table\<close>

text \<open>
  C4, as stated, fails at the acceptance fraction 0.20: no row of the table contains
  0.20, and the code leaves the step size unchanged there (it neither divides by 1.1
  nor by 1.01).
\<close>

theorem step_size_table_counterexample:
  "documented_step_size 0.20 1 = None
   \<and> adjust_step_size 0.20 1 = 1
   \<and> adjust_step_size 0.20 1 \<noteq> 1 / 1.1
   \<and> adjust_step_size 0.20 1 \<noteq> 1 / 1.01"
  by (simp add: documented_step_size_def adjust_step_size_def)


text \<open>
  C4, amended. An iteration of the Phase A loop that ends an interval replaces the
  step size of the parameter by \<open>adjust_step_size\<close> of the acceptance fraction. Fed an acceptance
  fraction of exactly 0.01, 0.05, 0.10, 0.15, 0.25, 0.35, 0.40, 0.45, 0.50, 0.55 or
  0.60 it selects the multiplier of the table row that contains the value (0.01
  divides by 5, 0.25 and 0.35 leave the step size unchanged, 0.60 multiplies by 2).
  At exactly 0.20 no row of the table applies and the step size is left unchanged.
\<close>

theorem step_size_table_boundaries:
  "(phaseA_iter e n keys orig key_j t = Inr t' \<and> iter t mod n = n - 1
      \<and> step_sizes t key_j = Some s \<longrightarrow>
      step_sizes t' key_j = Some (adjust_step_size (accfrac_j t') s))
   \<and> documented_step_size 0.01 s = Some (adjust_step_size 0.01 s) \<and> adjust_step_size 0.01 s = s / 5.0
   \<and> documented_step_size 0.05 s = Some (adjust_step_size 0.05 s) \<and> adjust_step_size 0.05 s = s / 2.0
   \<and> documented_step_size 0.10 s = Some (adjust_step_size 0.10 s) \<and> adjust_step_size 0.10 s = s / 1.5
   \<and> documented_step_size 0.15 s = Some (adjust_step_size 0.15 s) \<and> adjust_step_size 0.15 s = s / 1.2
   \<and> documented_step_size 0.25 s = Some (adjust_step_size 0.25 s) \<and> adjust_step_size 0.25 s = s
   \<and> documented_step_size 0.35 s = Some (adjust_step_size 0.35 s) \<and> adjust_step_size 0.35 s = s
   \<and> documented_step_size 0.40 s = Some (adjust_step_size 0.40 s) \<and> adjust_step_size 0.40 s = s * 1.01
   \<and> documented_step_size 0.45 s = Some (adjust_step_size 0.45 s) \<and> adjust_step_size 0.45 s = s * 1.1
   \<and> documented_step_size 0.50 s = Some (adjust_step_size 0.50 s) \<and> adjust_step_size 0.50 s = s * 1.2
   \<and> documented_step_size 0.55 s = Some (adjust_step_size 0.55 s) \<and> adjust_step_size 0.55 s = s * 1.5
   \<and> documented_step_size 0.60 s = Some (adjust_step_size 0.60 s) \<and> adjust_step_size 0.60 s = s * 2.0
   \<and> documented_step_size 0.20 s = None \<and> adjust_step_size 0.20 s = s"
proof -
  have A: "phaseA_iter e n keys orig key_j t = Inr t' \<and> iter t mod n = n - 1
      \<and> step_sizes t key_j = Some s \<longrightarrow>
      step_sizes t' key_j = Some (adjust_step_size (accfrac_j t') s)"
  proof
    assume a: "phaseA_iter e n keys orig key_j t = Inr t' \<and> iter t mod n = n - 1
      \<and> step_sizes t key_j = Some s"
    then have r: "phaseA_iter e n keys orig key_j t = Inr t'" ..
    obtain sz t5 where
      IA: "n \<noteq> 0" "step_sizes t key_j = Some sz" "nsuccess t5 = nsuccess t"
        "step_sizes t5 = step_sizes t"
        "t' = (if iter t mod n = n - 1 then phaseA_interval_end n key_j sz t5 else t5)"
      by (rule phaseA_iter_Inr [OF r])
    from IA(2) a have "sz = s" by simp
    with IA(5) a have "t' = phaseA_interval_end n key_j s t5" by simp
    then show "step_sizes t' key_j = Some (adjust_step_size (accfrac_j t') s)"
      by (simp add: phaseA_interval_end_fields)
  qed
  have B: "documented_step_size 0.01 s = Some (adjust_step_size 0.01 s) \<and> adjust_step_size 0.01 s = s / 5.0
   \<and> documented_step_size 0.05 s = Some (adjust_step_size 0.05 s) \<and> adjust_step_size 0.05 s = s / 2.0
   \<and> documented_step_size 0.10 s = Some (adjust_step_size 0.10 s) \<and> adjust_step_size 0.10 s = s / 1.5
   \<and> documented_step_size 0.15 s = Some (adjust_step_size 0.15 s) \<and> adjust_step_size 0.15 s = s / 1.2
   \<and> documented_step_size 0.25 s = Some (adjust_step_size 0.25 s) \<and> adjust_step_size 0.25 s = s
   \<and> documented_step_size 0.35 s = Some (adjust_step_size 0.35 s) \<and> adjust_step_size 0.35 s = s
   \<and> documented_step_size 0.40 s = Some (adjust_step_size 0.40 s) \<and> adjust_step_size 0.40 s = s * 1.01
   \<and> documented_step_size 0.45 s = Some (adjust_step_size 0.45 s) \<and> adjust_step_size 0.45 s = s * 1.1
   \<and> documented_step_size 0.50 s = Some (adjust_step_size 0.50 s) \<and> adjust_step_size 0.50 s = s * 1.2
   \<and> documented_step_size 0.55 s = Some (adjust_step_size 0.55 s) \<and> adjust_step_size 0.55 s = s * 1.5
   \<and> documented_step_size 0.60 s = Some (adjust_step_size 0.60 s) \<and> adjust_step_size 0.60 s = s * 2.0
   \<and> documented_step_size 0.20 s = None \<and> adjust_step_size 0.20 s = s"
    by (simp add: documented_step_size_def adjust_step_size_def)
  from A B show ?thesis by (rule conjI)
qed

theorem step_size_table_boundaries_witness:
  "(\<exists>t'. phaseA_iter example_env 3 [''x''] (\<lambda>key. Float 0) ''x''
            ((start_tuning 3 [''x''] (example_mcmc 1))\<lparr>iter := 2\<rparr>) = Inr t'
        \<and> iter ((start_tuning 3 [''x''] (example_mcmc 1))\<lparr>iter := 2\<rparr>) mod 3 = 3 - 1
        \<and> step_sizes ((start_tuning 3 [''x''] (example_mcmc 1))\<lparr>iter := 2\<rparr>) ''x'' = Some 1
        \<and> accfrac_j t' = 1 / 3
        \<and> step_sizes t' ''x'' = Some (adjust_step_size (1 / 3) 1))
   \<and> adjust_step_size (1 / 3) 1 = 1
   \<and> documented_step_size 0.01 1 = Some (1 / 5.0)
   \<and> adjust_step_size 0.01 1 = 1 / 5.0
   \<and> adjust_step_size 0.60 1 = 1 * 2.0"
proof -
  define S where "S = (start_tuning 3 [''x''] (example_mcmc 1))\<lparr>iter := 2\<rparr>"
  have sz: "step_sizes S ''x'' = Some 1" and it: "iter S = 2"
    by (simp_all add: S_def example_step_sizes)
  have "\<exists>t'. phaseA_iter example_env 3 [''x''] (\<lambda>key. Float 0) ''x'' S = Inr t' \<and> accfrac_j t' = 1 / 3"
    by (simp add: S_def tune_eval)
  then obtain t' where t': "phaseA_iter example_env 3 [''x''] (\<lambda>key. Float 0) ''x'' S = Inr t'"
    and a: "accfrac_j t' = 1 / 3"
    by blast
  note th = step_size_table_boundaries [where e = example_env and n = 3 and keys = "[''x'']"
      and orig = "\<lambda>key. Float 0" and key_j = "''x''" and t = S and t' = t' and s = 1]
  from th t' sz it a have st: "step_sizes t' ''x'' = Some (adjust_step_size (1 / 3) 1)"
    by simp
  have v: "adjust_step_size (1 / 3) 1 = 1"
    by (simp add: adjust_step_size_def)
  from th have tb: "documented_step_size 0.01 1 = Some (1 / 5.0)"
    "adjust_step_size 0.01 1 = 1 / 5.0" "adjust_step_size 0.60 1 = 1 * 2.0"
    by simp_all
  from t' a st sz it have "\<exists>t'. phaseA_iter example_env 3 [''x''] (\<lambda>key. Float 0) ''x'' S = Inr t'
        \<and> iter S mod 3 = 3 - 1 \<and> step_sizes S ''x'' = Some 1 \<and> accfrac_j t' = 1 / 3
        \<and> step_sizes t' ''x'' = Some (adjust_step_size (1 / 3) 1)"
    by auto
  with v tb show ?thesis unfolding S_def by blast
qed














section \<open>Properties of the processing order\<close>

lemma lookup_all_nth:
  "lookup_all d keys = Inr as \<Longrightarrow>
     length as = length keys \<and> (\<forall>i < length keys. dict_get d (keys ! i) = Inr (as ! i))"
proof (induction keys arbitrary: as)
  case Nil
  then show ?case by simp
next
  case (Cons key rest)
  then obtain a as' where a: "dict_get d key = Inr a" and r: "lookup_all d rest = Inr as'"
    and as: "as = a # as'"
    by (auto split: sum.splits)
  from Cons.IH [OF r] a as show ?case
    by (auto simp: nth_Cons split: nat.splits)
qed

lemma lookup_all_map:
  "\<forall>i \<in> set ixs. dict_get d (keys ! i) = Inr (as ! i) \<Longrightarrow>
     lookup_all d (map (\<lambda>ix. keys ! ix) ixs) = Inr (map (\<lambda>ix. as ! ix) ixs)"
  by (induction ixs) auto

lemma is_argsort_stable: "is_argsort xs (stable_argsort xs)"
  by (simp add: is_argsort_def stable_argsort_def)

lemma tuning_order_keys: "tuning_order keys = keys"
  by (simp add: tuning_order_def map_nth)

lemma phaseA_append:
  "phaseA e m n keys orig (ks1 @ ks2) s
     = (case phaseA e m n keys orig ks1 s of
          Inl err \<Rightarrow> Inl err
        | Inr s1 \<Rightarrow> phaseA e m n keys orig ks2 s1)"
  by (induction ks1 arbitrary: s) (simp_all split: sum.split)

lemma pre_tune_first_key:
  assumes "step_sizes mc key_j = None"
  shows "pre_tune e m n (key_j # rest) mc = Inl (KeyError key_j)"
proof -
  have "phaseA_loop e m n (key_j # rest) orig key_j
          ((start_tuning n (key_j # rest) mc)\<lparr>iter := 0, nsuccess := 0, accfrac_j := 0\<rparr>)
          = Inl (KeyError key_j)" for orig
    using assms by (subst phaseA_loop.simps) (simp add: start_tuning_def)
  then show ?thesis
    by (simp add: pre_tune_def tuning_order_keys Let_def)
qed

text \<open>
  C9, as stated, fails for \<open>pre_tune\<close>. The free variables are \<open>a\<close> (depth 2) and \<open>b\<close>
  (depth 1), in this order in the dictionary. With the empty \<open>step_sizes\<close> of a step
  method built without arguments, \<open>pre_tune\<close> raises the \<open>KeyError\<close> of line 105 for
  the parameter it tunes first, and that is \<open>a\<close>; the random draws start with \<open>b\<close>.
\<close>

theorem tuning_order_counterexample:
  "trace_ancestries
     [(''a'', Stoch [(''mu'', Stoch [(''c'', Constant)])]), (''b'', Stoch [(''c'', Constant)])]
     = Inr [(''a'', 2), (''b'', 1)]
   \<and> pre_tune example_env 15 3 [''a'', ''b''] default_mcmc = Inl (KeyError ''a'')
   \<and> random_draw_from_Model stable_argsort [''a'', ''b''] [(''a'', 2), (''b'', 1)]
       = Inr [''b'', ''a'']
   \<and> lookup_all [(''a'', 2), (''b'', 1)] (tuning_order [''a'', ''b'']) = Inr [2, 1]
   \<and> \<not> sorted [2, 1 :: nat]"
  by (simp add: trace_ancestries_def add_grandparents_def tuning_order_def
        pre_tune_first_key default_mcmc_def random_draw_from_Model_def stable_argsort_def)

text \<open>
  C9, amended. \<open>random_draw_from_Model\<close> consumes the ancestry depths: it calls
  \<open>random()\<close> on every free variable once, in nondecreasing ancestry depth.
  \<open>pre_tune\<close> does not consult the ancestry depths: its Phase A runs over the keys of
  the free-variable dictionary in the order of the dictionary, all of an initial
  part of the keys before the rest, and the first key is tuned first (with no step
  size for it, \<open>pre_tune\<close> raises the \<open>KeyError\<close> for that key).
\<close>

theorem draw_order_sorted:
  "((\<forall>xs. is_argsort xs (np_argsort xs))
      \<and> random_draw_from_Model np_argsort keys ancestries_dict = Inr order \<longrightarrow>
      mset order = mset keys
      \<and> (\<exists>depths. lookup_all ancestries_dict order = Inr depths \<and> sorted depths))
   \<and> pre_tune e m n keys mc
       = (let orig_stoch_values = copy_values keys (stoch_value mc) (\<lambda>key. Float 0)
          in case phaseA e m n keys orig_stoch_values keys (start_tuning n keys mc) of
               Inl err \<Rightarrow> Inl err
             | Inr s \<Rightarrow>
                 (case phaseB_loop e m n keys orig_stoch_values (start_phaseB e n keys s) of
                    Inl err \<Rightarrow> Inl err
                  | Inr s' \<Rightarrow>
                      Inr \<lparr>stoch_value = stoch_value s', arrays = arrays s',
                           step_sizes = step_sizes s', tick = tick s'\<rparr>))
   \<and> phaseA e m n keys orig (ks1 @ ks2) s
       = (case phaseA e m n keys orig ks1 s of
            Inl err \<Rightarrow> Inl err
          | Inr s1 \<Rightarrow> phaseA e m n keys orig ks2 s1)
   \<and> (step_sizes mc key_j = None \<longrightarrow>
        pre_tune e m n (key_j # rest) mc = Inl (KeyError key_j))"
proof -
  have A: "(\<forall>xs. is_argsort xs (np_argsort xs))
      \<and> random_draw_from_Model np_argsort keys ancestries_dict = Inr order \<longrightarrow>
      mset order = mset keys
      \<and> (\<exists>depths. lookup_all ancestries_dict order = Inr depths \<and> sorted depths)"
  proof
    assume h: "(\<forall>xs. is_argsort xs (np_argsort xs))
      \<and> random_draw_from_Model np_argsort keys ancestries_dict = Inr order"
    then obtain as where l: "lookup_all ancestries_dict keys = Inr as"
      and o: "order = map (\<lambda>ix. keys ! ix) (np_argsort as)"
      by (auto simp: random_draw_from_Model_def split: sum.splits)
    from h have "is_argsort as (np_argsort as)" by blast
    then have ms: "mset (np_argsort as) = mset [0..<length as]"
      and so: "sorted (map (\<lambda>ix. as ! ix) (np_argsort as))"
      by (simp_all add: is_argsort_def)
    from lookup_all_nth [OF l] have len: "length as = length keys"
      and g: "\<forall>i < length keys. dict_get ancestries_dict (keys ! i) = Inr (as ! i)"
      by simp_all
    from ms have "set (np_argsort as) = set [0..<length as]" by (rule mset_eq_setD)
    with g len have
      "\<forall>i \<in> set (np_argsort as). dict_get ancestries_dict (keys ! i) = Inr (as ! i)"
      by simp
    then have lk: "lookup_all ancestries_dict order
                     = Inr (map (\<lambda>ix. as ! ix) (np_argsort as))"
      unfolding o by (rule lookup_all_map)
    have "mset order = image_mset (\<lambda>ix. keys ! ix) (mset (np_argsort as))"
      unfolding o by simp
    also have "\<dots> = image_mset (\<lambda>ix. keys ! ix) (mset [0..<length keys])"
      by (simp only: ms len)
    also have "\<dots> = mset (map (\<lambda>ix. keys ! ix) [0..<length keys])"
      by simp
    also have "\<dots> = mset keys"
      by (simp only: map_nth)
    finally have "mset order = mset keys" .
    with lk so show "mset order = mset keys
      \<and> (\<exists>depths. lookup_all ancestries_dict order = Inr depths \<and> sorted depths)"
      by blast
  qed
  have B: "pre_tune e m n keys mc
       = (let orig_stoch_values = copy_values keys (stoch_value mc) (\<lambda>key. Float 0)
          in case phaseA e m n keys orig_stoch_values keys (start_tuning n keys mc) of
               Inl err \<Rightarrow> Inl err
             | Inr s \<Rightarrow>
                 (case phaseB_loop e m n keys orig_stoch_values (start_phaseB e n keys s) of
                    Inl err \<Rightarrow> Inl err
                  | Inr s' \<Rightarrow>
                      Inr \<lparr>stoch_value = stoch_value s', arrays = arrays s',
                           step_sizes = step_sizes s', tick = tick s'\<rparr>))"
    by (simp only: pre_tune_def tuning_order_keys)
  have C: "phaseA e m n keys orig (ks1 @ ks2) s
       = (case phaseA e m n keys orig ks1 s of
            Inl err \<Rightarrow> Inl err
          | Inr s1 \<Rightarrow> phaseA e m n keys orig ks2 s1)"
    by (rule phaseA_append)
  have D: "step_sizes mc key_j = None \<longrightarrow>
        pre_tune e m n (key_j # rest) mc = Inl (KeyError key_j)"
    by (simp add: pre_tune_first_key)
  show ?thesis by (intro conjI A B C D)
qed

theorem draw_order_sorted_witness:
  "(\<forall>xs. is_argsort xs (stable_argsort xs))
   \<and> random_draw_from_Model stable_argsort [''a'', ''b''] [(''a'', 2), (''b'', 1)]
       = Inr [''b'', ''a'']
   \<and> mset [''b'', ''a''] = mset [''a'', ''b'']
   \<and> (\<exists>depths. lookup_all [(''a'', 2), (''b'', 1)] [''b'', ''a''] = Inr depths \<and> sorted depths)
   \<and> step_sizes default_mcmc ''a'' = None
   \<and> pre_tune example_env 15 3 [''a'', ''b''] default_mcmc = Inl (KeyError ''a'')"
proof -
  have r: "random_draw_from_Model stable_argsort [''a'', ''b''] [(''a'', 2), (''b'', 1)]
             = Inr [''b'', ''a'']"
    by (simp add: random_draw_from_Model_def stable_argsort_def)
  have n: "step_sizes default_mcmc ''a'' = None"
    by (simp add: default_mcmc_def)
  note th = draw_order_sorted [where np_argsort = stable_argsort and keys = "[''a'', ''b'']"
      and ancestries_dict = "[(''a'', 2), (''b'', 1)]" and order = "[''b'', ''a'']"
      and mc = default_mcmc and key_j = "''a''" and rest = "[''b'']" and e = example_env
      and m = 15 and n = 3]
  from th [THEN conjunct1] is_argsort_stable r
  have a: "mset [''b'', ''a''] = mset [''a'', ''b'']
      \<and> (\<exists>depths. lookup_all [(''a'', 2), (''b'', 1)] [''b'', ''a''] = Inr depths \<and> sorted depths)"
    by blast
  from th [THEN conjunct2, THEN conjunct2, THEN conjunct2] n
  have b: "pre_tune example_env 15 3 [''a'', ''b''] default_mcmc = Inl (KeyError ''a'')"
    by blast
  from a b r n is_argsort_stable show ?thesis by blast
qed

section \<open>Properties of sample\<close>


lemma copy_values_apply:
  "copy_values keys src dst key = (if key \<in> set keys then src key else dst key)"
  unfolding copy_values_def
  by (induction keys arbitrary: dst) simp_all

lemma float_valued_copy:
  "float_valued K src \<Longrightarrow> float_valued K dst \<Longrightarrow> float_valued K (copy_values keys src dst)"
  by (simp add: float_valued_def copy_values_apply)

lemma float_valued_upd:
  "float_valued K f \<Longrightarrow> float_valued K g \<Longrightarrow> float_valued K (f(key := g key))"
  by (simp add: float_valued_def)

lemma float_valued_add:
  "float_valued K (stoch_value (add_to_value key d s)) = float_valued K (stoch_value s)"
  by (cases "stoch_value s key") (auto simp: add_to_value_def float_valued_def)

lemma phaseA_take_step_float:
  assumes "float_valued K (stoch_value s)" "float_valued K (t_current_values s)"
  shows "float_valued K (stoch_value (phaseA_take_step e k key_j l sz s))"
    and "float_valued K (t_current_values (phaseA_take_step e k key_j l sz s))"
  using assms
  by (simp_all add: phaseA_take_step_def Let_def float_valued_upd float_valued_add)

lemma phaseA_interval_end_values:
  "stoch_value (phaseA_interval_end n key_j sz s) = stoch_value s"
  "t_current_values (phaseA_interval_end n key_j sz s) = t_current_values s"
  by (simp_all add: phaseA_interval_end_def Let_def)

lemma phaseA_iter_float:
  assumes r: "phaseA_iter e n keys orig key_j s = Inr s'"
    and fo: "float_valued K orig"
    and fs: "float_valued K (stoch_value s)" "float_valued K (t_current_values s)"
  shows "float_valued K (stoch_value s') \<and> float_valued K (t_current_values s')"
proof -
  from r have n: "n \<noteq> 0"
    by (cases "n = 0") (simp_all add: phaseA_iter_def)
  define s2 where "s2 = (if iter s mod n = 0
                  then s\<lparr>iter := iter s + 1,
                         stoch_value := copy_values keys orig (stoch_value s)\<rparr>
                  else s\<lparr>iter := iter s + 1\<rparr>)"
  have f2: "float_valued K (stoch_value s2)" "float_valued K (t_current_values s2)"
    using fo fs by (simp_all add: s2_def float_valued_copy)
  from n have "phaseA_iter e n keys orig key_j s = (case step_sizes s2 key_j of
             None \<Rightarrow> Inl (KeyError key_j)
           | Some step_size_j \<Rightarrow>
               let s5 = phaseA_take_step e (iter s mod n) key_j (logp e (value_of s)) step_size_j s2
               in Inr (if iter s mod n = n - 1 then phaseA_interval_end n key_j step_size_j s5 else s5))"
    by (cases "iter s mod n = 0")
       (simp_all add: phaseA_iter_def Let_def s2_def split: option.split)
  with r have c: "(case step_sizes s2 key_j of
             None \<Rightarrow> Inl (KeyError key_j)
           | Some step_size_j \<Rightarrow>
               let s5 = phaseA_take_step e (iter s mod n) key_j (logp e (value_of s)) step_size_j s2
               in Inr (if iter s mod n = n - 1 then phaseA_interval_end n key_j step_size_j s5 else s5))
            = Inr s'"
    by simp
  then obtain sz where sz: "step_sizes s2 key_j = Some sz"
    by (cases "step_sizes s2 key_j") simp_all
  define s5 where "s5 = phaseA_take_step e (iter s mod n) key_j (logp e (value_of s)) sz s2"
  from c have "(if iter s mod n = n - 1 then phaseA_interval_end n key_j sz s5 else s5) = s'"
    by (simp only: sz option.case Let_def s5_def sum.inject)
  then have s': "s' = (if iter s mod n = n - 1 then phaseA_interval_end n key_j sz s5 else s5)"
    by (rule sym)
  have f5: "float_valued K (stoch_value s5)" "float_valued K (t_current_values s5)"
    unfolding s5_def by (rule phaseA_take_step_float [OF f2])+
  from f5 show ?thesis
    by (cases "iter s mod n = n - 1") (simp_all add: s' phaseA_interval_end_values)
qed

lemma phaseA_loop_float:
  assumes "phaseA_loop e m n keys orig key_j s = Inr s'"
    and "float_valued K orig"
    and "float_valued K (stoch_value s)" "float_valued K (t_current_values s)"
  shows "float_valued K (stoch_value s') \<and> float_valued K (t_current_values s')"
  using assms
proof (induction e m n keys orig key_j s rule: phaseA_loop.induct)
  case (1 e m n keys orig key_j s)
  show ?case
  proof (cases "iter s < m + 1")
    case False
    with "1.prems"(1) have "s' = s" by (subst (asm) phaseA_loop.simps) simp
    with "1.prems" show ?thesis by simp
  next
    case lt: True
    with "1.prems"(1) obtain sz where sz: "step_sizes s key_j = Some sz"
      by (subst (asm) phaseA_loop.simps) (cases "step_sizes s key_j", simp_all)
    show ?thesis
    proof (cases "nconsecutive \<le> nsuccess s")
      case True
      with "1.prems"(1) lt sz have "s' = s\<lparr>step_sizes := (step_sizes s)(key_j \<mapsto> sz * 0.3)\<rparr>"
        by (subst (asm) phaseA_loop.simps) simp
      with "1.prems" show ?thesis by simp
    next
      case ns: False
      from "1.prems"(1) lt sz ns have ne: "iter s \<noteq> m"
        by (subst (asm) phaseA_loop.simps) (cases "iter s = m", simp_all)
      from "1.prems"(1) lt sz ns ne obtain s1 where
        it: "phaseA_iter e n keys orig key_j s = Inr s1"
        by (subst (asm) phaseA_loop.simps)
           (cases "phaseA_iter e n keys orig key_j s", simp_all)
      from "1.prems"(1) lt sz ns ne it have
        lp: "phaseA_loop e m n keys orig key_j s1 = Inr s'"
        by (subst (asm) phaseA_loop.simps) simp
      from phaseA_iter_float [OF it "1.prems"(2,3,4)]
      have f1: "float_valued K (stoch_value s1)" "float_valued K (t_current_values s1)"
        by simp_all
      from "1.IH" [OF lt sz ns ne it lp "1.prems"(2) f1] show ?thesis .
    qed
  qed
qed

lemma phaseA_float:
  assumes "phaseA e m n keys orig ks s = Inr s'"
    and "float_valued K orig"
    and "float_valued K (stoch_value s)" "float_valued K (t_current_values s)"
  shows "float_valued K (stoch_value s') \<and> float_valued K (t_current_values s')"
  using assms
proof (induction ks arbitrary: s)
  case Nil
  then show ?case by simp
next
  case (Cons key_j rest)
  from Cons.prems(1) obtain s1 where
    l: "phaseA_loop e m n keys orig key_j (s\<lparr>iter := 0, nsuccess := 0, accfrac_j := 0\<rparr>) = Inr s1"
    and p: "phaseA e m n keys orig rest s1 = Inr s'"
    by (cases "phaseA_loop e m n keys orig key_j (s\<lparr>iter := 0, nsuccess := 0, accfrac_j := 0\<rparr>)")
       simp_all
  from Cons.prems(3,4) have
    "float_valued K (stoch_value (s\<lparr>iter := 0, nsuccess := 0, accfrac_j := 0\<rparr>))"
    "float_valued K (t_current_values (s\<lparr>iter := 0, nsuccess := 0, accfrac_j := 0\<rparr>))"
    by simp_all
  from phaseA_loop_float [OF l Cons.prems(2) this]
  have f1: "float_valued K (stoch_value s1)" "float_valued K (t_current_values s1)"
    by simp_all
  from Cons.IH [OF p Cons.prems(2) f1] show ?case .
qed

lemma rescale_and_step_float:
  "rescale_and_step e k keys s = Inr s' \<Longrightarrow>
     float_valued K (stoch_value s') = float_valued K (stoch_value s)
     \<and> t_current_values s' = t_current_values s"
proof (induction keys arbitrary: s)
  case Nil
  then show ?case by simp
next
  case (Cons key rest)
  from Cons.prems obtain sz where sz: "step_sizes s key = Some sz"
    by (auto split: option.splits)
  show ?case
  proof (cases "k = 0")
    case True
    with Cons.prems sz Cons.IH [of "(add_to_value key
            (proposal_distribution e (tick s) (sz * rescale_factor s))
            (s\<lparr>step_sizes := (step_sizes s)(key \<mapsto> sz * rescale_factor s)\<rparr>))
          \<lparr>tick := Suc (tick s)\<rparr>"]
    show ?thesis by (simp add: Let_def float_valued_add)
  next
    case False
    with Cons.prems sz Cons.IH [of "(add_to_value key (proposal_distribution e (tick s) sz) s)
          \<lparr>tick := Suc (tick s)\<rparr>"]
    show ?thesis by (simp add: Let_def float_valued_add)
  qed
qed

lemma phaseB_decide_float:
  assumes "float_valued K (stoch_value s)" "float_valued K (t_current_values s)"
  shows "float_valued K (stoch_value (phaseB_decide e k keys s))"
    and "float_valued K (t_current_values (phaseB_decide e k keys s))"
  using assms
  by (simp_all add: phaseB_decide_def Let_def float_valued_copy)

lemma phaseB_interval_end_values:
  "stoch_value (phaseB_interval_end n s) = stoch_value s"
  "t_current_values (phaseB_interval_end n s) = t_current_values s"
  by (simp_all add: phaseB_interval_end_def Let_def)

lemma phaseB_iter_float:
  assumes r: "phaseB_iter e n keys orig s = Inr s'"
    and fo: "float_valued K orig"
    and fs: "float_valued K (stoch_value s)" "float_valued K (t_current_values s)"
  shows "float_valued K (stoch_value s') \<and> float_valued K (t_current_values s')"
proof -
  from r have n: "n \<noteq> 0"
    by (cases "n = 0") (simp_all add: phaseB_iter_def)
  define s2 where "s2 = (if iter s mod n = 0
                  then s\<lparr>iter := iter s + 1,
                         stoch_value := copy_values keys orig (stoch_value s)\<rparr>
                  else s\<lparr>iter := iter s + 1\<rparr>)"
  have f2: "float_valued K (stoch_value s2)" "float_valued K (t_current_values s2)"
    using fo fs by (simp_all add: s2_def float_valued_copy)
  from n have "phaseB_iter e n keys orig s = (case rescale_and_step e (iter s mod n) keys s2 of
             Inl err \<Rightarrow> Inl err
           | Inr s3 \<Rightarrow>
               let s5 = phaseB_decide e (iter s mod n) keys s3
               in Inr (if iter s mod n = n - 1 then phaseB_interval_end n s5 else s5))"
    by (cases "iter s mod n = 0")
       (simp_all add: phaseB_iter_def Let_def s2_def split: sum.split)
  with r have c: "(case rescale_and_step e (iter s mod n) keys s2 of
             Inl err \<Rightarrow> Inl err
           | Inr s3 \<Rightarrow>
               let s5 = phaseB_decide e (iter s mod n) keys s3
               in Inr (if iter s mod n = n - 1 then phaseB_interval_end n s5 else s5))
            = Inr s'"
    by simp
  then obtain s3 where s3: "rescale_and_step e (iter s mod n) keys s2 = Inr s3"
    by (cases "rescale_and_step e (iter s mod n) keys s2") simp_all
  from c have "(if iter s mod n = n - 1
           then phaseB_interval_end n (phaseB_decide e (iter s mod n) keys s3)
           else phaseB_decide e (iter s mod n) keys s3) = s'"
    by (simp only: s3 sum.case Let_def sum.inject)
  then have s': "s' = (if iter s mod n = n - 1
           then phaseB_interval_end n (phaseB_decide e (iter s mod n) keys s3)
           else phaseB_decide e (iter s mod n) keys s3)"
    by (rule sym)
  from rescale_and_step_float [OF s3, of K] f2
  have f3: "float_valued K (stoch_value s3)" "float_valued K (t_current_values s3)"
    by simp_all
  note f5 = phaseB_decide_float [OF f3, of e "iter s mod n" keys]
  from f5 show ?thesis
    by (cases "iter s mod n = n - 1") (simp_all add: s' phaseB_interval_end_values)
qed

lemma phaseB_loop_float:
  assumes "phaseB_loop e m n keys orig s = Inr s'"
    and "float_valued K orig"
    and "float_valued K (stoch_value s)" "float_valued K (t_current_values s)"
  shows "float_valued K (stoch_value s') \<and> float_valued K (t_current_values s')"
  using assms
proof (induction e m n keys orig s rule: phaseB_loop.induct)
  case (1 e m n keys orig s)
  show ?case
  proof (cases "iter s < m + 1")
    case False
    with "1.prems"(1) have "s' = s" by (subst (asm) phaseB_loop.simps) simp
    with "1.prems" show ?thesis by simp
  next
    case lt: True
    show ?thesis
    proof (cases "nconsecutive \<le> nsuccess s")
      case True
      with "1.prems"(1) lt have "s' = s"
        by (subst (asm) phaseB_loop.simps) simp
      with "1.prems" show ?thesis by simp
    next
      case ns: False
      from "1.prems"(1) lt ns have ne: "iter s \<noteq> m"
        by (subst (asm) phaseB_loop.simps) (cases "iter s = m", simp_all)
      from "1.prems"(1) lt ns ne obtain s1 where
        it: "phaseB_iter e n keys orig s = Inr s1"
        by (subst (asm) phaseB_loop.simps)
           (cases "phaseB_iter e n keys orig s", simp_all)
      from "1.prems"(1) lt ns ne it have
        lp: "phaseB_loop e m n keys orig s1 = Inr s'"
        by (subst (asm) phaseB_loop.simps) simp
      from phaseB_iter_float [OF it "1.prems"(2,3,4)]
      have f1: "float_valued K (stoch_value s1)" "float_valued K (t_current_values s1)"
        by simp_all
      from "1.IH" [OF lt ns ne it lp "1.prems"(2) f1] show ?thesis .
    qed
  qed
qed

lemma pre_tune_float:
  assumes r: "pre_tune e m n keys mc = Inr mc'"
    and f: "float_valued (set keys) (stoch_value mc)"
  shows "float_valued (set keys) (stoch_value mc')"
proof -
  define orig where "orig = copy_values keys (stoch_value mc) (\<lambda>key. Float 0)"
  have fo: "float_valued (set keys) orig"
    using f by (simp add: orig_def float_valued_def copy_values_apply)
  define S where "S = start_tuning n keys mc"
  have fS: "float_valued (set keys) (stoch_value S)" "float_valued (set keys) (t_current_values S)"
    using f by (simp_all add: S_def start_tuning_def float_valued_def copy_values_apply)
  from r have c: "(case phaseA e m n keys orig (tuning_order keys) S of
           Inl err \<Rightarrow> Inl err
         | Inr s \<Rightarrow>
             (case phaseB_loop e m n keys orig (start_phaseB e n keys s) of
                Inl err \<Rightarrow> Inl err
              | Inr s' \<Rightarrow>
                  Inr \<lparr>stoch_value = stoch_value s', arrays = arrays s',
                       step_sizes = step_sizes s', tick = tick s'\<rparr>)) = Inr mc'"
    unfolding pre_tune_def orig_def S_def Let_def .
  then obtain s where a: "phaseA e m n keys orig (tuning_order keys) S = Inr s"
    by (cases "phaseA e m n keys orig (tuning_order keys) S") simp_all
  from c obtain s' where b: "phaseB_loop e m n keys orig (start_phaseB e n keys s) = Inr s'"
    by (cases "phaseB_loop e m n keys orig (start_phaseB e n keys s)") (simp_all add: a)
  from c have mc': "mc' = \<lparr>stoch_value = stoch_value s', arrays = arrays s',
                       step_sizes = step_sizes s', tick = tick s'\<rparr>"
    by (simp add: a b)
  from phaseA_float [OF a fo fS]
  have fa: "float_valued (set keys) (stoch_value s)" "float_valued (set keys) (t_current_values s)"
    by simp_all
  then have "float_valued (set keys) (stoch_value (start_phaseB e n keys s))"
    "float_valued (set keys) (t_current_values (start_phaseB e n keys s))"
    by (simp_all add: start_phaseB_def)
  from phaseB_loop_float [OF b fo this] show ?thesis
    by (simp add: mc')
qed


lemma record_values_apply:
  "record_values keys i v c key = (if key \<in> set keys then (c key)[i := v key] else c key)"
  unfolding record_values_def
  by (induction keys arbitrary: c) simp_all

lemma init_chain_apply:
  "init_chain keys nsteps key
     = (if key \<in> set keys \<or> key = ''logp'' \<or> key = ''accepted''
        then replicate nsteps (Finite 0) else [])"
proof -
  have h: "foldl (\<lambda>c key. c(key := replicate nsteps (Finite 0))) c keys key
          = (if key \<in> set keys then replicate nsteps (Finite 0) else c key)" for c
    by (induction keys arbitrary: c) simp_all
  show ?thesis by (simp add: init_chain_def h)
qed

lemma propose_sampler:
  "propose e keys s = Inr s' \<Longrightarrow>
     chain s' = chain s \<and> current_values s' = current_values s \<and> current_logp s' = current_logp s"
  for s :: sampler
  by (induction keys arbitrary: s) (auto split: option.splits)

lemma propose_float:
  "propose e keys s = Inr s' \<Longrightarrow>
     float_valued K (stoch_value s') = float_valued K (stoch_value s)"
proof (induction keys arbitrary: s)
  case Nil
  then show ?case by simp
next
  case (Cons key rest)
  from Cons.prems obtain sz where sz: "step_sizes s key = Some sz"
    by (auto split: option.splits)
  with Cons.prems Cons.IH [of "(add_to_value key (proposal_distribution e (tick s) sz) s)
          \<lparr>tick := Suc (tick s)\<rparr>"]
  show ?case by (simp add: float_valued_add)
qed

lemma propose_error:
  "propose e keys s = Inl err \<Longrightarrow> \<exists>key. err = KeyError key"
  by (induction keys arbitrary: s) (auto split: option.splits)

lemma sample_loop_error:
  "sample_loop e keys is s = Inl err \<Longrightarrow> \<exists>key. err = KeyError key"
  by (induction "is" arbitrary: s)
     (auto simp: sample_step_def split: sum.splits dest: propose_error)

lemmas sample_eval = chain_of_def sample_def tuning_requested_def
        init_chain_def copy_values_def sample_step_def sample_decide_def sample_record_def
        record_values_def decide_def add_to_value_def value_of_def astype_def Let_def upt_rec
        exp_neg_below rep2 rep3

lemma example_run:
  "chain_of (sample example_env (Some True) [''x''] 3 None None (example_mcmc 1)) ''accepted''
     = [Finite 1, Finite 0, Finite 0]
   \<and> chain_of (sample example_env (Some True) [''x''] 3 None None (example_mcmc 1)) ''x''
     = [Finite 0, Finite 0, Finite 0]"
  by (simp add: sample_eval example_env_def example_mcmc_def)

lemma array_reject_step:
  fixes s :: sampler
  assumes sv: "stoch_value s ''x'' = NdArray 0" and cv: "current_values s ''x'' = NdArray 0"
    and sz: "step_sizes s ''x'' = Some 1" and lp: "current_logp s = Finite 0"
    and nn: "0 \<le> arrays s 0"
  shows "\<exists>s'. sample_step downhill_env [''x''] i s = Inr s'
           \<and> stoch_value s' ''x'' = NdArray 0 \<and> current_values s' ''x'' = NdArray 0
           \<and> step_sizes s' ''x'' = Some 1 \<and> current_logp s' = Finite 0
           \<and> arrays s' 0 = arrays s 0 + 10
           \<and> chain s' = (chain s)
                (''accepted'' := (chain s ''accepted'')[i := Finite 0],
                 ''x'' := (chain s ''x'')[i := Finite (arrays s 0 + 10)],
                 ''logp'' := (chain s ''logp'')[i := Finite 0])"
proof -
  from nn have "1/2 \<le> arrays s 0 + 10" by simp
  from exp_neg_below [OF this] have ex: "\<not> (9 \<le> exp (- (arrays s 0 + 10)) * 10)" .
  from nn have ab: "\<bar>arrays s 0 + 10\<bar> = arrays s 0 + 10" by simp
  have nz: "\<not> (0 < - arrays s 0 - 10)" using nn by simp
  show ?thesis
    using sv cv sz lp ex ab nz
    by (simp add: sample_step_def sample_decide_def sample_record_def record_values_def
          copy_values_def decide_def add_to_value_def value_of_def astype_def Let_def
          downhill_env_def)
qed

lemma example_array_run:
  "chain_of (sample downhill_env (Some True) [''x''] 3 None None array_mcmc) ''accepted''
     = [Finite 0, Finite 0, Finite 0]
   \<and> chain_of (sample downhill_env (Some True) [''x''] 3 None None array_mcmc) ''x''
     = [Finite 10, Finite 20, Finite 30]"
proof -
  define s0 :: sampler where "s0 =
     \<lparr>stoch_value = stoch_value array_mcmc, arrays = arrays array_mcmc,
      step_sizes = step_sizes array_mcmc, tick = tick array_mcmc,
      chain = init_chain [''x''] 3,
      current_values = copy_values [''x''] (stoch_value array_mcmc) (\<lambda>key. Float 0),
      current_logp = logp downhill_env (value_of array_mcmc)\<rparr>"
  have run: "sample downhill_env (Some True) [''x''] 3 None None array_mcmc
               = sample_loop downhill_env [''x''] [0, Suc 0, Suc (Suc 0)] s0"
    by (simp add: sample_def tuning_requested_def Let_def s0_def upt_rec del: sample_loop.simps)
  have f0: "stoch_value s0 ''x'' = NdArray 0" "current_values s0 ''x'' = NdArray 0"
    "step_sizes s0 ''x'' = Some 1" "current_logp s0 = Finite 0" "arrays s0 0 = 0"
    "chain s0 = (\<lambda>key. [])(''logp'' := [Finite 0, Finite 0, Finite 0],
                             ''accepted'' := [Finite 0, Finite 0, Finite 0],
                             ''x'' := [Finite 0, Finite 0, Finite 0])"
    by (simp_all add: s0_def array_mcmc_def copy_values_def init_chain_def downhill_env_def
          value_of_def rep3)
  from array_reject_step [OF f0(1-4), of 0] f0(5) obtain s1 where
    st1: "sample_step downhill_env [''x''] 0 s0 = Inr s1"
    and f1: "stoch_value s1 ''x'' = NdArray 0" "current_values s1 ''x'' = NdArray 0"
      "step_sizes s1 ''x'' = Some 1" "current_logp s1 = Finite 0" "arrays s1 0 = 10"
    and c1: "chain s1 = (chain s0)
                (''accepted'' := (chain s0 ''accepted'')[0 := Finite 0],
                 ''x'' := (chain s0 ''x'')[0 := Finite 10],
                 ''logp'' := (chain s0 ''logp'')[0 := Finite 0])"
    by auto
  from array_reject_step [OF f1(1-4), of "Suc 0"] f1(5) obtain s2 where
    st2: "sample_step downhill_env [''x''] (Suc 0) s1 = Inr s2"
    and f2: "stoch_value s2 ''x'' = NdArray 0" "current_values s2 ''x'' = NdArray 0"
      "step_sizes s2 ''x'' = Some 1" "current_logp s2 = Finite 0" "arrays s2 0 = 20"
    and c2: "chain s2 = (chain s1)
                (''accepted'' := (chain s1 ''accepted'')[Suc 0 := Finite 0],
                 ''x'' := (chain s1 ''x'')[Suc 0 := Finite 20],
                 ''logp'' := (chain s1 ''logp'')[Suc 0 := Finite 0])"
    by auto
  from array_reject_step [OF f2(1-4), of "Suc (Suc 0)"] f2(5) obtain s3 where
    st3: "sample_step downhill_env [''x''] (Suc (Suc 0)) s2 = Inr s3"
    and c3: "chain s3 = (chain s2)
                (''accepted'' := (chain s2 ''accepted'')[Suc (Suc 0) := Finite 0],
                 ''x'' := (chain s2 ''x'')[Suc (Suc 0) := Finite 30],
                 ''logp'' := (chain s2 ''logp'')[Suc (Suc 0) := Finite 0])"
    by auto
  have "sample downhill_env (Some True) [''x''] 3 None None array_mcmc = Inr s3"
    by (simp add: run st1 st2 st3)
  then show ?thesis
    by (simp add: chain_of_def c3 c2 c1 f0(6))
qed

text \<open>
  C10. With \<open>ntune_iterlim\<close> supplied and \<open>tune_interval\<close> unset, \<open>sample\<close> does what
  it does when no tuning is requested at all: the test of line 50 fails, tuning is
  skipped, and the error of line 56 is never raised.
\<close>

theorem sample_unset_interval:
  "sample e step_method keys nsteps (Some m) None mc
     = sample e step_method keys nsteps None None mc
   \<and> sample e step_method keys nsteps (Some m) None mc
       \<noteq> Inl (ValueError ''tune_interval must be set explicitly for pre-tuning'')"
proof -
  have A: "sample e step_method keys nsteps (Some m) None mc
             = sample e step_method keys nsteps None None mc"
    by (cases step_method) (simp_all add: sample_def tuning_requested_def)
  have B: "sample e step_method keys nsteps None None mc
       \<noteq> Inl (ValueError ''tune_interval must be set explicitly for pre-tuning'')"
    by (cases step_method)
       (auto simp: sample_def tuning_requested_def Let_def dest!: sample_loop_error)
  from A B show ?thesis by simp
qed

theorem sample_unset_interval_witness:
  "sample example_env (Some True) [''x''] 3 (Some 100) None (example_mcmc 1)
     = sample example_env (Some True) [''x''] 3 None None (example_mcmc 1)
   \<and> chain_of (sample example_env (Some True) [''x''] 3 (Some 100) None (example_mcmc 1)) ''accepted''
       = [Finite 1, Finite 0, Finite 0]"
  using sample_unset_interval [of example_env "Some True" "[''x'']" 3 100 "example_mcmc 1"]
    example_run
  by simp

lemma sample_decide_fields:
  "chain (sample_decide e keys i s)
     = (chain s)(''accepted'' := (chain s ''accepted'')
          [i := (if fst (decide e (tick s) (current_logp s) (logp e (value_of s)))
                 then Finite 1 else Finite 0)])"
  "\<forall>key \<in> set keys. stoch_value (sample_decide e keys i s) key
                       = current_values (sample_decide e keys i s) key"
  "\<not> fst (decide e (tick s) (current_logp s) (logp e (value_of s))) \<Longrightarrow>
     current_values (sample_decide e keys i s) = current_values s"
  by (simp_all add: sample_decide_def Let_def copy_values_apply)

lemma sample_decide_float:
  assumes "float_valued K (stoch_value s)" "float_valued K (current_values s)"
  shows "float_valued K (stoch_value (sample_decide e keys i s))"
    and "float_valued K (current_values (sample_decide e keys i s))"
  using assms
  by (simp_all add: sample_decide_def Let_def float_valued_copy)

lemma sample_record_fields:
  "chain (sample_record e keys i s)
     = (record_values keys i (\<lambda>key. Finite (astype (dtype e key) (value_of s key))) (chain s))
         (''logp'' := (record_values keys i
                         (\<lambda>key. Finite (astype (dtype e key) (value_of s key))) (chain s) ''logp'')
                        [i := current_logp s])"
  "current_values (sample_record e keys i s) = current_values s"
  "stoch_value (sample_record e keys i s) = stoch_value s"
  by (simp_all add: sample_record_def Let_def)

lemma sample_step_facts:
  assumes "sample_step e keys i s = Inr s'"
  shows "length (chain s' key) = length (chain s key)"
    and "j \<noteq> i \<Longrightarrow> chain s' key ! j = chain s key ! j"
    and "''accepted'' \<notin> set keys \<Longrightarrow> ''logp'' \<notin> set keys \<Longrightarrow> key \<in> set keys \<Longrightarrow>
           i < length (chain s key) \<Longrightarrow> current_values s' key = Float v \<Longrightarrow>
           chain s' key ! i = Finite (astype (dtype e key) v)"
    and "''accepted'' \<notin> set keys \<Longrightarrow> i < length (chain s ''accepted'') \<Longrightarrow>
           chain s' ''accepted'' ! i = Finite 1
           \<or> (chain s' ''accepted'' ! i = Finite 0 \<and> current_values s' = current_values s)"
    and "float_valued K (stoch_value s) \<Longrightarrow> float_valued K (current_values s) \<Longrightarrow>
           float_valued K (stoch_value s') \<and> float_valued K (current_values s')"
proof -
  from assms obtain s1 where p: "propose e keys s = Inr s1"
    and s': "s' = sample_record e keys i (sample_decide e keys i s1)"
    by (auto simp: sample_step_def split: sum.splits)
  note f = propose_sampler [OF p]
  show "length (chain s' key) = length (chain s key)"
    by (simp add: s' sample_record_fields sample_decide_fields record_values_apply f)
  show "chain s' key ! j = chain s key ! j" if "j \<noteq> i"
    using that
    by (simp add: s' sample_record_fields sample_decide_fields record_values_apply f)
  show "chain s' key ! i = Finite (astype (dtype e key) v)"
    if "''accepted'' \<notin> set keys" "''logp'' \<notin> set keys" "key \<in> set keys"
       "i < length (chain s key)" "current_values s' key = Float v"
  proof -
    from that have ne: "key \<noteq> ''accepted''" "key \<noteq> ''logp''" by auto
    from that(5) have "current_values (sample_decide e keys i s1) key = Float v"
      by (simp add: s' sample_record_fields)
    with sample_decide_fields(2) [of keys e i s1] that(3)
    have "stoch_value (sample_decide e keys i s1) key = Float v" by simp
    then have "value_of (sample_decide e keys i s1) key = v"
      by (simp add: value_of_def)
    with ne that show ?thesis
      by (simp add: s' sample_record_fields sample_decide_fields(1) record_values_apply f)
  qed
  show "chain s' ''accepted'' ! i = Finite 1
           \<or> (chain s' ''accepted'' ! i = Finite 0 \<and> current_values s' = current_values s)"
    if "''accepted'' \<notin> set keys" "i < length (chain s ''accepted'')"
  proof (cases "fst (decide e (tick s1) (current_logp s1) (logp e (value_of s1)))")
    case True
    with that show ?thesis
      by (simp add: s' sample_record_fields sample_decide_fields(1) record_values_apply f)
  next
    case False
    with that sample_decide_fields(3) [OF False, of keys i] show ?thesis
      by (simp add: s' sample_record_fields sample_decide_fields(1) record_values_apply f)
  qed
  show "float_valued K (stoch_value s') \<and> float_valued K (current_values s')"
    if "float_valued K (stoch_value s)" "float_valued K (current_values s)"
  proof -
    from that propose_float [OF p, of K] f
    have "float_valued K (stoch_value s1)" "float_valued K (current_values s1)"
      by simp_all
    from sample_decide_float [OF this, of e keys i] show ?thesis
      by (simp add: s' sample_record_fields)
  qed
qed

lemma sample_loop_invariant:
  assumes "sample_loop e keys [j..<N] s = Inr r"
    and "''accepted'' \<notin> set keys" and "''logp'' \<notin> set keys"
    and "\<forall>key \<in> set keys \<union> {''accepted''}. length (chain s key) = N"
    and "float_valued (set keys) (stoch_value s)"
    and "\<forall>key \<in> set keys. current_values s key = Float (cv key)"
  shows "(\<forall>key. length (chain r key) = length (chain s key))
       \<and> (\<forall>key i. i < j \<longrightarrow> chain r key ! i = chain s key ! i)
       \<and> (\<forall>i. j \<le> i \<and> i < N \<longrightarrow>
             (chain r ''accepted'' ! i = Finite 0 \<or> chain r ''accepted'' ! i = Finite 1)
             \<and> (\<forall>key \<in> set keys. chain r ''accepted'' ! i = Finite 0 \<longrightarrow>
                   chain r key ! i
                     = (if i = j then Finite (astype (dtype e key) (cv key))
                        else chain r key ! (i - 1))))"
  using assms
proof (induction "N - j" arbitrary: j s cv)
  case 0
  then have nj: "N \<le> j" by simp
  then have "[j..<N] = []" by simp
  with "0.prems"(1) have rs: "r = s" by simp
  from nj have "\<not> (j \<le> i \<and> i < N)" for i by simp
  with rs show ?case by blast
next
  case (Suc d)
  then have jN: "j < N" by simp
  then have upt: "[j..<N] = j # [Suc j..<N]" by (simp add: upt_conv_Cons)
  from Suc.prems(1) obtain s1 where st: "sample_step e keys j s = Inr s1"
    and lp: "sample_loop e keys [Suc j..<N] s1 = Inr r"
    unfolding upt by (auto split: sum.splits)
  note acc = Suc.prems(2) and lg = Suc.prems(3) and len = Suc.prems(4)
    and fl = Suc.prems(5) and cv = Suc.prems(6)
  from cv have fc: "float_valued (set keys) (current_values s)"
    by (simp add: float_valued_def)
  from sample_step_facts(5) [OF st fl fc]
  have fl1: "float_valued (set keys) (stoch_value s1)"
    and fc1: "float_valued (set keys) (current_values s1)"
    by simp_all
  define cv1 where "cv1 = (\<lambda>key. case current_values s1 key of Float v \<Rightarrow> v | NdArray a \<Rightarrow> 0)"
  have cv1: "\<forall>key \<in> set keys. current_values s1 key = Float (cv1 key)"
  proof
    fix key assume "key \<in> set keys"
    with fc1 obtain v where "current_values s1 key = Float v"
      by (auto simp: float_valued_def)
    then show "current_values s1 key = Float (cv1 key)" by (simp add: cv1_def)
  qed
  have L: "length (chain s1 key) = length (chain s key)" for key
    by (rule sample_step_facts(1) [OF st])
  have O: "i \<noteq> j \<Longrightarrow> chain s1 key ! i = chain s key ! i" for key i
    by (rule sample_step_facts(2) [OF st])
  have V: "key \<in> set keys \<Longrightarrow> chain s1 key ! j = Finite (astype (dtype e key) (cv1 key))" for key
    using sample_step_facts(3) [OF st acc lg, of key "cv1 key"] len jN cv1 by simp
  have F: "chain s1 ''accepted'' ! j = Finite 1
           \<or> (chain s1 ''accepted'' ! j = Finite 0 \<and> current_values s1 = current_values s)"
    using sample_step_facts(4) [OF st acc] len jN by simp
  have len1: "\<forall>key \<in> set keys \<union> {''accepted''}. length (chain s1 key) = N"
    using len L by simp
  from Suc.hyps(2) have d: "d = N - Suc j" by simp
  note IH = Suc.hyps(1) [OF d lp acc lg len1 fl1 cv1]
  from IH have I1: "length (chain r key) = length (chain s1 key)" for key by blast
  from IH have I2: "i < Suc j \<Longrightarrow> chain r key ! i = chain s1 key ! i" for key i by blast
  from IH have I3: "Suc j \<le> i \<Longrightarrow> i < N \<Longrightarrow>
      (chain r ''accepted'' ! i = Finite 0 \<or> chain r ''accepted'' ! i = Finite 1)
      \<and> (\<forall>key \<in> set keys. chain r ''accepted'' ! i = Finite 0 \<longrightarrow>
            chain r key ! i = (if i = Suc j then Finite (astype (dtype e key) (cv1 key))
                               else chain r key ! (i - 1)))"
    for i by blast
  have P1: "\<forall>key. length (chain r key) = length (chain s key)"
    using I1 L by simp
  have P2: "\<forall>key i. i < j \<longrightarrow> chain r key ! i = chain s key ! i"
    using I2 O by simp
  have P3: "(chain r ''accepted'' ! i = Finite 0 \<or> chain r ''accepted'' ! i = Finite 1)
             \<and> (\<forall>key \<in> set keys. chain r ''accepted'' ! i = Finite 0 \<longrightarrow>
                   chain r key ! i = (if i = j then Finite (astype (dtype e key) (cv key))
                                      else chain r key ! (i - 1)))"
    if i: "j \<le> i" "i < N" for i
  proof (cases "i = j")
    case True
    have a: "chain r ''accepted'' ! j = chain s1 ''accepted'' ! j"
      using I2 [of j "''accepted''"] by simp
    have v: "key \<in> set keys \<Longrightarrow> chain r key ! j = Finite (astype (dtype e key) (cv1 key))" for key
      using I2 [of j key] V [of key] by simp
    from F show ?thesis
    proof
      assume "chain s1 ''accepted'' ! j = Finite 1"
      with a True show ?thesis by simp
    next
      assume h: "chain s1 ''accepted'' ! j = Finite 0 \<and> current_values s1 = current_values s"
      have "key \<in> set keys \<Longrightarrow> cv1 key = cv key" for key
        using h cv cv1 by (metis pyval.inject(1))
      with h a v True show ?thesis by simp
    qed
  next
    case False
    with i have i': "Suc j \<le> i" by simp
    show ?thesis
    proof (cases "i = Suc j")
      case True
      have "key \<in> set keys \<Longrightarrow> Finite (astype (dtype e key) (cv1 key)) = chain r key ! j" for key
        using I2 [of j key] V [of key] by simp
      with I3 [OF i' i(2)] True show ?thesis by simp
    next
      case ne: False
      with I3 [OF i' i(2)] False show ?thesis by simp
    qed
  qed
  from P1 P2 P3 show ?case by blast
qed

text \<open>
  C2, as stated, fails in both directions. In the example run with step size 1 the
  first proposal draw is 0: the step is accepted (\<open>beta = 0\<close>, and the uniform draw is
  below \<open>exp 0\<close>), so \<open>accepted[0]\<close> is 1 although the recorded value \<open>x[0]\<close> is the
  initial value 0. And when the value of \<open>x\<close> is a numpy array, \<open>propose\<close> changes the
  array in place, \<open>current_values\<close> holds the same array, and setting the value back
  after a rejected step changes nothing: in the run with \<open>downhill_env\<close> every step is
  rejected (\<open>accepted\<close> is 0 throughout), and the recorded values are 10, 20 and 30.
\<close>

theorem chain_shape_counterexample:
  "chain_of (sample example_env (Some True) [''x''] 3 None None (example_mcmc 1)) ''accepted''
     = [Finite 1, Finite 0, Finite 0]
   \<and> chain_of (sample example_env (Some True) [''x''] 3 None None (example_mcmc 1)) ''x''
     = [Finite 0, Finite 0, Finite 0]
   \<and> stoch_value (example_mcmc 1) ''x'' = Float 0
   \<and> step_sizes (example_mcmc 1) ''x'' = Some 1
   \<and> chain_of (sample downhill_env (Some True) [''x''] 3 None None array_mcmc) ''accepted''
     = [Finite 0, Finite 0, Finite 0]
   \<and> chain_of (sample downhill_env (Some True) [''x''] 3 None None array_mcmc) ''x''
     = [Finite 10, Finite 20, Finite 30]
   \<and> value_of array_mcmc ''x'' = 0"
  using example_run example_array_run
  by (simp add: example_mcmc_def array_mcmc_def value_of_def)

text \<open>
  C2, amended. After \<open>sample\<close> with \<open>nsteps = N\<close> has returned, every array of the
  chain (one per free variable, \<open>logp\<close> and \<open>accepted\<close>) has length \<open>N\<close>. When no free
  variable is named \<open>logp\<close> or \<open>accepted\<close> and the value of every free variable is a
  Python float when \<open>sample\<close> is called, every flag \<open>accepted[i]\<close> is 0 or 1, and where
  it is 0 the recorded value of every free variable at index \<open>i\<close> is the one at index
  \<open>i - 1\<close> (for \<open>i = 0\<close>: the value the variable had when \<open>sample\<close> was called, cast
  to the dtype of the variable).
\<close>

theorem chain_shape:
  assumes "sample e step_method keys nsteps ntune_iterlim tune_interval mc = Inr r"
  shows "(\<forall>key \<in> set keys \<union> {''logp'', ''accepted''}. length (chain r key) = nsteps)
       \<and> (''accepted'' \<notin> set keys \<and> ''logp'' \<notin> set keys
            \<and> float_valued (set keys) (stoch_value mc) \<longrightarrow>
            (\<forall>i < nsteps.
               (chain r ''accepted'' ! i = Finite 0 \<or> chain r ''accepted'' ! i = Finite 1)
               \<and> (\<forall>key \<in> set keys. chain r ''accepted'' ! i = Finite 0 \<longrightarrow>
                     chain r key ! i
                       = (if i = 0 then Finite (astype (dtype e key) (value_of mc key))
                          else chain r key ! (i - 1)))))"
proof -
  from assms obtain has_pre_tune where sm: "step_method = Some has_pre_tune"
    by (cases step_method) (simp_all add: sample_def)
  define tuned where "tuned =
                (if tuning_requested ntune_iterlim tune_interval
                 then
                   (if \<not> has_pre_tune
                    then Inl (ValueError
                                ([CHR 0x0A] @ ''StepMethod must have pre_tune() method assigned''))
                    else
                      (case tune_interval of
                         None \<Rightarrow>
                           Inl (ValueError ''tune_interval must be set explicitly for pre-tuning'')
                       | Some n \<Rightarrow>
                           (case ntune_iterlim of
                              None \<Rightarrow> Inl TypeError
                            | Some m \<Rightarrow> pre_tune e m n keys mc)))
                 else Inr mc)"
  from assms have "(case tuned of
               Inl err \<Rightarrow> Inl err
             | Inr mc' \<Rightarrow>
                 sample_loop e keys [0..<nsteps]
                   \<lparr>stoch_value = stoch_value mc', arrays = arrays mc',
                    step_sizes = step_sizes mc', tick = tick mc',
                    chain = init_chain keys nsteps,
                    current_values = copy_values keys (stoch_value mc) (\<lambda>key. Float 0),
                    current_logp = logp e (value_of mc)\<rparr>) = Inr r"
    unfolding sample_def sm tuned_def Let_def by simp
  note run = this
  then obtain mc' where t: "tuned = Inr mc'"
    by (cases tuned) simp_all
  define s0 where "s0 = \<lparr>stoch_value = stoch_value mc', arrays = arrays mc',
            step_sizes = step_sizes mc', tick = tick mc',
            chain = init_chain keys nsteps,
            current_values = copy_values keys (stoch_value mc) (\<lambda>key. Float 0),
            current_logp = logp e (value_of mc)\<rparr>"
  have c0: "chain s0 = init_chain keys nsteps"
    and v0: "current_values s0 = copy_values keys (stoch_value mc) (\<lambda>key. Float 0)"
    and w0: "stoch_value s0 = stoch_value mc'"
    by (simp_all add: s0_def)
  from run have lp0: "sample_loop e keys [0..<nsteps] s0 = Inr r"
    unfolding t s0_def by simp
  have len0: "\<forall>key \<in> set keys \<union> {''logp'', ''accepted''}. length (chain s0 key) = nsteps"
    by (simp add: c0 init_chain_apply)
  have step: "length (chain b key) = length (chain a key)"
    if "sample_loop e keys is a = Inr b" for a b key "is"
    using that
    by (induction "is" arbitrary: a)
       (auto split: sum.splits simp: sample_step_facts(1))
  have A: "\<forall>key \<in> set keys \<union> {''logp'', ''accepted''}. length (chain r key) = nsteps"
    using len0 step [OF lp0] by simp
  have B: "\<forall>i < nsteps.
               (chain r ''accepted'' ! i = Finite 0 \<or> chain r ''accepted'' ! i = Finite 1)
               \<and> (\<forall>key \<in> set keys. chain r ''accepted'' ! i = Finite 0 \<longrightarrow>
                     chain r key ! i
                       = (if i = 0 then Finite (astype (dtype e key) (value_of mc key))
                          else chain r key ! (i - 1)))"
    if acc: "''accepted'' \<notin> set keys" and lg: "''logp'' \<notin> set keys"
      and fl: "float_valued (set keys) (stoch_value mc)"
  proof -
    have fl': "float_valued (set keys) (stoch_value mc')"
    proof (cases "tuning_requested ntune_iterlim tune_interval")
      case False
      with t have "mc' = mc" by (simp add: tuned_def)
      with fl show ?thesis by simp
    next
      case True
      with t obtain m n where "pre_tune e m n keys mc = Inr mc'"
        by (cases has_pre_tune; cases tune_interval; cases ntune_iterlim)
           (simp_all add: tuned_def)
      from pre_tune_float [OF this fl] show ?thesis .
    qed
    have cv: "\<forall>key \<in> set keys. current_values s0 key = Float (value_of mc key)"
    proof
      fix key assume k: "key \<in> set keys"
      with fl obtain v where "stoch_value mc key = Float v"
        by (auto simp: float_valued_def)
      with k show "current_values s0 key = Float (value_of mc key)"
        by (simp add: v0 copy_values_apply value_of_def)
    qed
    from len0 have "\<forall>key \<in> set keys \<union> {''accepted''}. length (chain s0 key) = nsteps"
      by simp
    from sample_loop_invariant [OF lp0 acc lg this _ cv] fl'
    have "\<forall>i. 0 \<le> i \<and> i < nsteps \<longrightarrow>
             (chain r ''accepted'' ! i = Finite 0 \<or> chain r ''accepted'' ! i = Finite 1)
             \<and> (\<forall>key \<in> set keys. chain r ''accepted'' ! i = Finite 0 \<longrightarrow>
                   chain r key ! i
                     = (if i = 0 then Finite (astype (dtype e key) (value_of mc key))
                        else chain r key ! (i - 1)))"
      by (simp add: w0)
    then show ?thesis by simp
  qed
  from A B show ?thesis by blast
qed

theorem chain_shape_witness:
  "length (chain_of (sample example_env (Some True) [''x''] 3 None None (example_mcmc 1)) ''x'') = 3
   \<and> length (chain_of (sample example_env (Some True) [''x''] 3 None None (example_mcmc 1)) ''logp'') = 3
   \<and> length (chain_of (sample example_env (Some True) [''x''] 3 None None (example_mcmc 1)) ''accepted'') = 3
   \<and> ''accepted'' \<notin> set [''x''] \<and> ''logp'' \<notin> set [''x'']
   \<and> float_valued (set [''x'']) (stoch_value (example_mcmc 1))
   \<and> (1::nat) < 3 \<and> ''x'' \<in> set [''x'']
   \<and> chain_of (sample example_env (Some True) [''x''] 3 None None (example_mcmc 1)) ''accepted'' ! 1
       = Finite 0
   \<and> chain_of (sample example_env (Some True) [''x''] 3 None None (example_mcmc 1)) ''x'' ! 1
       = chain_of (sample example_env (Some True) [''x''] 3 None None (example_mcmc 1)) ''x'' ! (1 - 1)"
proof -
  obtain r where eq: "sample example_env (Some True) [''x''] 3 None None (example_mcmc 1) = Inr r"
    using example_run
    by (cases "sample example_env (Some True) [''x''] 3 None None (example_mcmc 1)")
       (simp_all add: chain_of_def)
  have c: "chain_of (Inr r) key = chain r key" for key
    by (simp add: chain_of_def)
  from example_run have a: "chain r ''accepted'' ! 1 = Finite 0"
    unfolding eq c by simp
  have fl: "float_valued (set [''x'']) (stoch_value (example_mcmc 1))"
    by (simp add: float_valued_def example_mcmc_def)
  note cs = chain_shape [OF eq]
  from cs have len: "length (chain r ''x'') = 3" "length (chain r ''logp'') = 3"
    "length (chain r ''accepted'') = 3"
    by simp_all
  from cs a fl have "chain r ''x'' ! 1 = chain r ''x'' ! (1 - 1)"
    by simp
  with len a fl show ?thesis unfolding eq c by simp
qed

end
